theory Spec2Isabelle
  imports Complex_Main "HOL-Library.Multiset"
begin

section \<open>Item store (data.js)\<close>

text \<open>
  JavaScript numbers that only ever hold integers (ids, grid columns and rows, item pixel
  positions, array lengths) are modelled as \<open>int\<close>; camera quantities, which are divided
  by the zoom factor, are modelled as \<open>real\<close> (exact arithmetic in place of IEEE doubles).
\<close>

definition GRID_COLUMNS :: int where
  "GRID_COLUMNS = 50"

definition ITEM_SIZE :: int where
  "ITEM_SIZE = 200"

text \<open>\<open>a % b\<close> of JavaScript: the remainder takes the sign of the dividend.\<close>

definition js_rem :: "int \<Rightarrow> int \<Rightarrow> int" where
  "js_rem a b = sgn a * (\<bar>a\<bar> mod \<bar>b\<bar>)"

text \<open>\<open>Math.ceil(a / b)\<close> for integers \<open>a\<close> and \<open>b > 0\<close>; \<open>Math.floor(a / b)\<close> is \<open>a div b\<close>.\<close>

definition math_ceil_div :: "int \<Rightarrow> int \<Rightarrow> int" where
  "math_ceil_div a b = - ((- a) div b)"

text \<open>
  The field \<open>type\<close>: \<open>'photo'\<close> or \<open>'video'\<close>, or, for an item of a loaded file, any other
  string the file gives.
\<close>

datatype media = Photo | Video | Other string

text \<open>
  An item object. The fields \<open>src\<close> and \<open>topic\<close> (strings that only feed the media
  elements) are not modelled.
\<close>

record item =
  item_id :: int
  item_type :: media
  item_x :: int
  item_y :: int
  item_column :: int
  item_row :: int

text \<open>The four direction strings \<open>'right'\<close>, \<open>'bottom'\<close>, \<open>'left'\<close>, \<open>'top'\<close>.\<close>

datatype direction = DirRight | DirBottom | DirLeft | DirTop

text \<open>The module-level variables of data.js.\<close>

record store =
  ITEM_DATA :: "item list"
  globalItemIdCounter :: int
  usingRealData :: bool

text \<open>
  One iteration of the loop of \<open>generateItemData\<close>. The draw \<open>Math.random() > 0.9\<close> of
  iteration \<open>i\<close> is the parameter \<open>isVideo i\<close>.
\<close>

definition generateItem :: "(nat \<Rightarrow> bool) \<Rightarrow> int \<Rightarrow> int \<Rightarrow> nat \<Rightarrow> item" where
  "generateItem isVideo baseId startIndex i =
     (let globalIndex = startIndex + int i;
          row = globalIndex div GRID_COLUMNS;
          column = js_rem globalIndex GRID_COLUMNS
      in \<lparr>item_id = baseId + int i,
          item_type = (if isVideo i then Video else Photo),
          item_x = column * ITEM_SIZE,
          item_y = row * ITEM_SIZE,
          item_column = column,
          item_row = row\<rparr>)"

text \<open>
  \<open>generateItemData(totalItems, topic, startId, startIndex)\<close>: returns the new items and
  the new value of \<open>globalItemIdCounter\<close>; \<open>startId = None\<close> is \<open>null\<close>.
\<close>

definition generateItemData ::
  "nat \<Rightarrow> (nat \<Rightarrow> bool) \<Rightarrow> int option \<Rightarrow> int \<Rightarrow> int \<Rightarrow> item list \<times> int" where
  "generateItemData totalItems isVideo startId startIndex counter =
     (let baseId = (case startId of Some sid \<Rightarrow> sid | None \<Rightarrow> counter + 1);
          items = map (generateItem isVideo baseId startIndex) [0..<totalItems]
      in (items, baseId + int totalItems - 1))"

text \<open>\<open>let ITEM_DATA = generateItemData(2000, selectedTopic, 1, 0)\<close> at start-up.\<close>

definition initial_store :: "(nat \<Rightarrow> bool) \<Rightarrow> store" where
  "initial_store isVideo =
     (let (items, c) = generateItemData 2000 isVideo (Some 1) 0 0
      in \<lparr>ITEM_DATA = items, globalItemIdCounter = c, usingRealData = False\<rparr>)"

text \<open>The \<open>forEach\<close> body of the \<open>'left'\<close> branch, for the new item at index \<open>idx\<close>.\<close>

definition positionLeft :: "int \<Rightarrow> int \<Rightarrow> int \<Rightarrow> nat \<Rightarrow> item \<Rightarrow> item" where
  "positionLeft minX minY newCols idx it =
     (let col = js_rem (int idx) newCols;
          row = int idx div newCols;
          x' = minX - ((newCols - col) * ITEM_SIZE);
          y' = (minY div ITEM_SIZE + row) * ITEM_SIZE
      in it\<lparr>item_x := x', item_y := y',
            item_column := x' div ITEM_SIZE, item_row := y' div ITEM_SIZE\<rparr>)"

text \<open>The \<open>forEach\<close> body of the \<open>'top'\<close> branch.\<close>

definition positionTop :: "int \<Rightarrow> int \<Rightarrow> nat \<Rightarrow> item \<Rightarrow> item" where
  "positionTop minY newRows idx it =
     (let col = js_rem (int idx) GRID_COLUMNS;
          row = int idx div GRID_COLUMNS;
          y' = minY - ((newRows - row) * ITEM_SIZE)
      in it\<lparr>item_x := col * ITEM_SIZE, item_y := y',
            item_column := col, item_row := y' div ITEM_SIZE\<rparr>)"

text \<open>\<open>xs.forEach((item, idx) => ...)\<close> as a map with the index.\<close>

definition forEach_idx :: "(nat \<Rightarrow> 'a \<Rightarrow> 'b) \<Rightarrow> 'a list \<Rightarrow> 'b list" where
  "forEach_idx f xs = map (\<lambda>(idx, v). f idx v) (zip [0..<length xs] xs)"

text \<open>
  How a call can fail to return a store. \<open>RangeError\<close>: a spread call
  \<open>Math.min(...xs)\<close> passes every element of \<open>xs\<close> as an argument, and the engine raises
  \<open>RangeError\<close> when there are more arguments than it admits. \<open>NonFinite\<close>: the call
  returns, but with positions that are \<open>Infinity\<close> or \<open>NaN\<close>, which have no counterpart
  over \<open>int\<close>.
\<close>

datatype failure = RangeError | NonFinite

text \<open>
  \<open>addMoreItems(count, direction)\<close>: returns the pair of \<open>newItems\<close> and the updated
  module state. The parameter \<open>count\<close> is written \<open>count'\<close>. The early return under
  \<open>usingRealData\<close>, which yields \<open>undefined\<close>, gives the empty list.

  \<open>limit\<close> is the largest number of arguments the engine admits in a call; it is a bound
  of the engine, not of the program, and so a parameter. The \<open>'left'\<close> and \<open>'top'\<close>
  branches begin with \<open>Math.min(...ITEM_DATA.map(..))\<close>, which raises \<open>RangeError\<close> when
  \<open>ITEM_DATA\<close> has more than \<open>limit\<close> items, before anything is assigned. On an empty
  \<open>ITEM_DATA\<close> the same call is \<open>Math.min()\<close>, which is \<open>Infinity\<close>, and the positions
  become non-finite. The \<open>'right'\<close> and \<open>'bottom'\<close> branches make no spread call
  (\<open>[...ITEM_DATA, ...newItems]\<close> spreads into an array literal and passes no
  arguments).
\<close>

definition addMoreItems ::
  "nat \<Rightarrow> nat \<Rightarrow> direction \<Rightarrow> (nat \<Rightarrow> bool) \<Rightarrow> store \<Rightarrow> failure + (item list \<times> store)" where
  "addMoreItems limit count' direction isVideo st =
     (if usingRealData st then Inr ([], st)
      else
        let currentLength = int (length (ITEM_DATA st));
            currentRows = math_ceil_div currentLength GRID_COLUMNS
        in if direction = DirRight \<or> direction = DirBottom then
             (let startIndex = currentLength;
                  (newItems, c) = generateItemData count' isVideo
                     (Some (globalItemIdCounter st + 1)) startIndex (globalItemIdCounter st)
              in Inr (newItems,
                   st\<lparr>ITEM_DATA := ITEM_DATA st @ newItems, globalItemIdCounter := c\<rparr>))
           else if limit < length (ITEM_DATA st) then Inl RangeError
           else if ITEM_DATA st = [] then Inl NonFinite
           else if direction = DirLeft then
             (let minX = min_list (map item_x (ITEM_DATA st));
                  itemsToAdd = int count';
                  newCols = math_ceil_div itemsToAdd currentRows;
                  (generated, c) = generateItemData count' isVideo
                     (Some (globalItemIdCounter st + 1)) (- itemsToAdd) (globalItemIdCounter st);
                  newItems = forEach_idx
                     (positionLeft minX (min_list (map item_y (ITEM_DATA st))) newCols) generated
              in Inr (newItems,
                   st\<lparr>ITEM_DATA := newItems @ ITEM_DATA st, globalItemIdCounter := c\<rparr>))
           else
             (let minY = min_list (map item_y (ITEM_DATA st));
                  itemsToAdd = int count';
                  newRows = math_ceil_div itemsToAdd GRID_COLUMNS;
                  (generated, c) = generateItemData count' isVideo
                     (Some (globalItemIdCounter st + 1)) (- itemsToAdd) (globalItemIdCounter st);
                  newItems = forEach_idx (positionTop minY newRows) generated
              in Inr (newItems,
                   st\<lparr>ITEM_DATA := newItems @ ITEM_DATA st, globalItemIdCounter := c\<rparr>)))"

subsection \<open>Loading a file of real photos\<close>

text \<open>
  An entry of the array \<open>items\<close> of photos-data.json: each of \<open>id\<close> (an integer), \<open>type\<close>
  and \<open>src\<close> (strings) is present or absent.
\<close>

record file_item =
  file_id :: "int option"
  file_type :: "string option"
  file_src :: "string option"

text \<open>\<open>s.includes(sub)\<close>; the name \<open>includes\<close> itself is reserved in Isabelle.\<close>

fun str_includes :: "string \<Rightarrow> string \<Rightarrow> bool" where
  "str_includes [] sub = (sub = [])"
| "str_includes (c # cs) sub = (take (length sub) (c # cs) = sub \<or> str_includes cs sub)"

text \<open>
  \<open>src.match(/\.(mp4|webm|mov)$/i)\<close>: the string ends with one of the three extensions,
  letters compared without regard to case.
\<close>

definition lower :: "char \<Rightarrow> char" where
  "lower c = (let n = (of_char c :: nat) in if 65 \<le> n \<and> n \<le> 90 then char_of (n + 32) else c)"

definition ends_with :: "string \<Rightarrow> string \<Rightarrow> bool" where
  "ends_with s e = (length e \<le> length s \<and> drop (length s - length e) s = e)"

definition isVideoPath :: "string \<Rightarrow> bool" where
  "isVideoPath src =
     (let s = map lower src
      in ends_with s ''.mp4'' \<or> ends_with s ''.webm'' \<or> ends_with s ''.mov'')"

text \<open>\<open>hasRealUrls\<close>: some entry has a non-empty \<open>src\<close> with none of the three markers.\<close>

definition hasRealUrls :: "file_item list \<Rightarrow> bool" where
  "hasRealUrls items =
     list_ex (\<lambda>it. case file_src it of
                     None \<Rightarrow> False
                   | Some s \<Rightarrow> s \<noteq> [] \<and> \<not> str_includes s ''picsum.photos''
                       \<and> \<not> str_includes s ''unsplash'' \<and> \<not> str_includes s ''placeholder'')
             items"

definition media_of :: "string \<Rightarrow> media" where
  "media_of t = (if t = ''photo'' then Photo else if t = ''video'' then Video else Other t)"

text \<open>
  The \<open>forEach\<close> body of \<open>loadItemData\<close> for the entry at \<open>index\<close>. The id is
  \<open>item.id || index + 1\<close>: an absent id, and the id 0, give \<open>index + 1\<close>. The type is
  \<open>item.type\<close> unless that is absent or empty; then it is read off \<open>item.src\<close>, and
  \<open>item.src.match\<close> raises \<open>TypeError\<close> when \<open>src\<close> is absent: the result \<open>None\<close>.
\<close>

definition loadedItem :: "nat \<Rightarrow> file_item \<Rightarrow> item option" where
  "loadedItem index it =
     (let row = int index div GRID_COLUMNS;
          column = js_rem (int index) GRID_COLUMNS;
          ident = (case file_id it of
                     None \<Rightarrow> int index + 1
                   | Some k \<Rightarrow> if k = 0 then int index + 1 else k);
          given = (case file_type it of None \<Rightarrow> [] | Some t \<Rightarrow> t);
          kind = (if given \<noteq> [] then Some (media_of given)
                  else case file_src it of
                         None \<Rightarrow> None
                       | Some s \<Rightarrow> Some (if isVideoPath s then Video else Photo))
      in map_option
           (\<lambda>t. \<lparr>item_id = ident, item_type = t,
                  item_x = column * ITEM_SIZE, item_y = row * ITEM_SIZE,
                  item_column = column, item_row = row\<rparr>)
           kind)"

text \<open>
  \<open>loadItemData()\<close>, given what the fetch of photos-data.json yields: \<open>None\<close> when there is
  no usable \<open>items\<close> array (no file, a response that is not ok, no array), else the
  array. The result \<open>None\<close> is \<open>null\<close>: an empty array, an array without real URLs, and a
  \<open>TypeError\<close> in the loop, which the \<open>try\<close> / \<open>catch\<close> around the whole body swallows.
\<close>

definition loadItemData :: "file_item list option \<Rightarrow> item list option" where
  "loadItemData file =
     (case file of
        None \<Rightarrow> None
      | Some items \<Rightarrow>
          if items = [] then None
          else if hasRealUrls items then those (forEach_idx loadedItem items)
          else None)"

text \<open>
  The callback of \<open>loadItemData().then\<close>, on the variables of data.js: a non-empty result
  replaces \<open>ITEM_DATA\<close> and sets \<open>usingRealData\<close>.
\<close>

definition dataLoaded :: "item list option \<Rightarrow> store \<Rightarrow> store" where
  "dataLoaded loaded st =
     (case loaded of
        None \<Rightarrow> st
      | Some items \<Rightarrow>
          if items = [] then st else st\<lparr>ITEM_DATA := items, usingRealData := True\<rparr>)"

section \<open>Camera and visibility (app.js)\<close>

definition BUFFER_SIZE :: int where
  "BUFFER_SIZE = 3"

definition MAX_DOM_NODES :: nat where
  "MAX_DOM_NODES = 500"

definition LOAD_THRESHOLD :: real where
  "LOAD_THRESHOLD = 2000"

text \<open>The object \<open>state\<close>.\<close>

record camera =
  panX :: real
  panY :: real
  zoom :: real
  isDragging :: bool
  dragStartX :: real
  dragStartY :: real
  dragStartPanX :: real
  dragStartPanY :: real
  viewportWidth :: real
  viewportHeight :: real
  canvasWidth :: int
  canvasHeight :: int

record bounds =
  b_left :: real
  b_top :: real
  b_right :: real
  b_bottom :: real

definition calculateCanvasDimensions :: "item list \<Rightarrow> int \<times> int" where
  "calculateCanvasDimensions items =
     (if items = [] then (0, 0)
      else
        let totalRows = math_ceil_div (int (length items)) GRID_COLUMNS
        in (GRID_COLUMNS * ITEM_SIZE, totalRows * ITEM_SIZE))"

definition screenToWorld :: "camera \<Rightarrow> real \<Rightarrow> real \<Rightarrow> real \<times> real" where
  "screenToWorld c screenX screenY =
     ((screenX - panX c) / zoom c, (screenY - panY c) / zoom c)"

definition gridToWorld :: "int \<Rightarrow> int \<Rightarrow> int \<times> int" where
  "gridToWorld column row = (column * ITEM_SIZE, row * ITEM_SIZE)"

definition calculateViewportBounds :: "camera \<Rightarrow> bounds" where
  "calculateViewportBounds c =
     (let topLeft = screenToWorld c 0 0;
          topRight = screenToWorld c (viewportWidth c) 0;
          bottomLeft = screenToWorld c 0 (viewportHeight c);
          bottomRight = screenToWorld c (viewportWidth c) (viewportHeight c);
          left = min (fst topLeft) (fst bottomLeft);
          right = max (fst topRight) (fst bottomRight);
          top = min (snd topLeft) (snd topRight);
          bottom = max (snd bottomLeft) (snd bottomRight);
          buffer = real_of_int (BUFFER_SIZE * ITEM_SIZE)
      in \<lparr>b_left = left - buffer, b_top = top - buffer,
          b_right = right + buffer, b_bottom = bottom + buffer\<rparr>)"

definition itemIntersectsViewport :: "item \<Rightarrow> bounds \<Rightarrow> bool" where
  "itemIntersectsViewport it bnds =
     (let itemLeft = real_of_int (item_x it);
          itemRight = real_of_int (item_x it + ITEM_SIZE);
          itemTop = real_of_int (item_y it);
          itemBottom = real_of_int (item_y it + ITEM_SIZE)
      in \<not> (itemRight < b_left bnds \<or> itemLeft > b_right bnds \<or>
              itemBottom < b_top bnds \<or> itemTop > b_bottom bnds))"

definition findVisibleItems :: "camera \<Rightarrow> item list \<Rightarrow> item list" where
  "findVisibleItems c items =
     (let bnds = calculateViewportBounds c
      in filter (\<lambda>it. itemIntersectsViewport it bnds) items)"

section \<open>Live-element registry and reconciliation (app.js)\<close>

text \<open>
  A grid-item element, reduced to what the reconciler reads and writes: the data
  attribute \<open>itemId\<close> and the style positions \<open>left\<close> and \<open>top\<close>. The media child (image
  or video) and its playback state are not modelled, so \<open>cleanupVideoElement\<close> and
  \<open>manageVideoPlayback\<close>, which touch only that child, have no counterpart here.
\<close>

record element =
  el_itemId :: int
  el_left :: int
  el_top :: int

text \<open>
  \<open>renderedItems\<close> is a JavaScript \<open>Map\<close>, which iterates in insertion order: an
  association list with distinct keys. Its keys are the decimal strings \<open>id.toString()\<close>,
  read back with \<open>parseInt\<close>; they are modelled by the ids themselves.
\<close>

type_synonym registry = "(int \<times> element) list"

definition map_has :: "int \<Rightarrow> registry \<Rightarrow> bool" where
  "map_has k m = (k \<in> set (map fst m))"

definition map_delete :: "int \<Rightarrow> registry \<Rightarrow> registry" where
  "map_delete k m = filter (\<lambda>p. fst p \<noteq> k) m"

definition map_set :: "int \<Rightarrow> element \<Rightarrow> registry \<Rightarrow> registry" where
  "map_set k v m =
     (if map_has k m then map (\<lambda>p. if fst p = k then (k, v) else p) m else m @ [(k, v)])"

definition createItemElement :: "item \<Rightarrow> element" where
  "createItemElement it = \<lparr>el_itemId = item_id it, el_left = 0, el_top = 0\<rparr>"

text \<open>The first step of \<open>syncDOM\<close>: collect the keys that are not selected, then delete them.\<close>

definition removeInvisible :: "int list \<Rightarrow> registry \<Rightarrow> registry" where
  "removeInvisible visibleItemIds reg =
     (let itemsToRemove = filter (\<lambda>k. k \<notin> set visibleItemIds) (map fst reg)
      in fold map_delete itemsToRemove reg)"

definition itemDistance :: "real \<Rightarrow> real \<Rightarrow> item \<Rightarrow> real" where
  "itemDistance centerX centerY it =
     (let itemCenterX = real_of_int (item_x it) + real_of_int ITEM_SIZE / 2;
          itemCenterY = real_of_int (item_y it) + real_of_int ITEM_SIZE / 2
      in sqrt ((itemCenterX - centerX)\<^sup>2 + (itemCenterY - centerY)\<^sup>2))"

text \<open>The list \<open>itemDistances\<close> built by the loop over the registry.\<close>

definition itemDistances :: "bounds \<Rightarrow> item list \<Rightarrow> int list \<Rightarrow> registry \<Rightarrow> (int \<times> real) list" where
  "itemDistances bnds items visibleItemIds reg =
     (let centerX = (b_left bnds + b_right bnds) / 2;
          centerY = (b_top bnds + b_bottom bnds) / 2
      in List.map_filter
           (\<lambda>k. case find (\<lambda>i. item_id i = k) items of
                   None \<Rightarrow> None
                 | Some it \<Rightarrow>
                     if item_id it \<notin> set visibleItemIds
                     then Some (k, itemDistance centerX centerY it) else None)
           (map fst reg))"

text \<open>
  The memory-management block of \<open>syncDOM\<close>. \<open>Array.prototype.sort\<close> is stable and the
  comparator \<open>b.distance - a.distance\<close> orders by descending distance: a stable insertion
  sort on the negated distance.
\<close>

definition evictFurthest :: "camera \<Rightarrow> item list \<Rightarrow> int list \<Rightarrow> registry \<Rightarrow> registry" where
  "evictFurthest c items visibleItemIds reg =
     (if length reg > MAX_DOM_NODES then
        let bnds = calculateViewportBounds c;
            sorted = sort_key (\<lambda>p. - snd p) (itemDistances bnds items visibleItemIds reg);
            itemsToRemoveCount = length reg - MAX_DOM_NODES
        in fold map_delete (map fst (take itemsToRemoveCount sorted)) reg
      else reg)"

definition addVisible :: "item list \<Rightarrow> registry \<Rightarrow> registry" where
  "addVisible visibleItems reg =
     fold (\<lambda>it m. if \<not> map_has (item_id it) m
                   then map_set (item_id it)
                          ((createItemElement it)\<lparr>el_left := item_x it, el_top := item_y it\<rparr>) m
                   else m)
          visibleItems reg"

definition updateItemPositions :: "item list \<Rightarrow> registry \<Rightarrow> registry" where
  "updateItemPositions items reg =
     map (\<lambda>(k, el). case find (\<lambda>i. item_id i = k) items of
                       None \<Rightarrow> (k, el)
                     | Some it \<Rightarrow> (k, el\<lparr>el_left := item_x it, el_top := item_y it\<rparr>))
         reg"

text \<open>\<open>syncDOM\<close> on the registry, given the camera and \<open>ITEM_DATA\<close>.\<close>

definition syncDOM :: "camera \<Rightarrow> item list \<Rightarrow> registry \<Rightarrow> registry" where
  "syncDOM c items reg =
     (let visibleItems = findVisibleItems c items;
          visibleItemIds = map item_id visibleItems;
          reg1 = removeInvisible visibleItemIds reg;
          reg2 = evictFurthest c items visibleItemIds reg1;
          reg3 = addVisible visibleItems reg2
      in updateItemPositions items reg3)"


section \<open>Render scheduling, boundary loading and input handlers (app.js)\<close>

text \<open>
  The mutable variables of the page: the object \<open>state\<close>, the map \<open>renderedItems\<close>, the
  variable \<open>renderAnimationFrame\<close> (\<open>None\<close> is \<open>null\<close>), the flag \<open>isLoadingMore\<close> and the
  variables of data.js. \<open>pendingFrames\<close> counts the callbacks handed to
  \<open>requestAnimationFrame\<close> that the browser has not run yet. \<open>appendCalls\<close> is a log of
  the calls of \<open>window.addMoreItemsToMEGHTOSH\<close> with their arguments, kept for stating
  how often the append operation is invoked.
\<close>

record app =
  state :: camera
  renderedItems :: registry
  renderAnimationFrame :: "unit option"
  pendingFrames :: nat
  isLoadingMore :: bool
  data :: store
  appendCalls :: "(nat \<times> direction) list"

text \<open>
  The property \<open>window.addMoreItemsToMEGHTOSH\<close> is read at each boundary check: it is
  either not a function (\<open>None\<close>) or a function of the count and the direction that acts
  on the page.
\<close>

text \<open>
  How a call that acts on the page ends: \<open>Inr s\<close>, it returns and leaves the page \<open>s\<close>;
  \<open>Inl (e, s)\<close>, it is left by \<open>e\<close> with the page as \<open>s\<close> at that moment, and no statement
  after the failing call is executed.
\<close>

type_synonym turn = "(failure \<times> app) + app"

type_synonym hook = "nat \<Rightarrow> direction \<Rightarrow> app \<Rightarrow> turn"

text \<open>
  \<open>window.addMoreItemsToMEGHTOSH = addMoreItems\<close> (data.js), with the engine's argument
  limit and the random draws given.
\<close>

definition window_addMoreItems :: "nat \<Rightarrow> (nat \<Rightarrow> bool) \<Rightarrow> hook" where
  "window_addMoreItems limit isVideo count' direction s =
     (case addMoreItems limit count' direction isVideo (data s) of
        Inl e \<Rightarrow> Inl (e, s)
      | Inr r \<Rightarrow> Inr (s\<lparr>data := snd r\<rparr>))"

definition scheduleRender :: "app \<Rightarrow> app" where
  "scheduleRender s =
     (if renderAnimationFrame s = None
      then s\<lparr>renderAnimationFrame := Some (), pendingFrames := pendingFrames s + 1\<rparr>
      else s)"

definition updateCanvasSize :: "app \<Rightarrow> app" where
  "updateCanvasSize s =
     (let dimensions = calculateCanvasDimensions (ITEM_DATA (data s))
      in s\<lparr>state := (state s)\<lparr>canvasWidth := fst dimensions, canvasHeight := snd dimensions\<rparr>\<rparr>)"

text \<open>
  The body shared by the four branches of \<open>checkBoundariesAndLoad\<close>, which differ in the
  direction string only.
\<close>

definition loadMore :: "hook option \<Rightarrow> direction \<Rightarrow> app \<Rightarrow> turn" where
  "loadMore h direction s =
     (let s1 = s\<lparr>isLoadingMore := True\<rparr>
      in case h of
           None \<Rightarrow> Inr s1
         | Some f \<Rightarrow>
             (case f 2000 direction (s1\<lparr>appendCalls := appendCalls s1 @ [(2000, direction)]\<rparr>) of
                Inl e \<Rightarrow> Inl e
              | Inr s2 \<Rightarrow>
                  Inr (scheduleRender ((updateCanvasSize s2)\<lparr>isLoadingMore := False\<rparr>))))"

definition checkBoundariesAndLoad :: "hook option \<Rightarrow> app \<Rightarrow> turn" where
  "checkBoundariesAndLoad h s =
     (if isLoadingMore s \<or> ITEM_DATA (data s) = [] then Inr s
      else
        let bnds = calculateViewportBounds (state s);
            canvasDims = calculateCanvasDimensions (ITEM_DATA (data s));
            distanceToRight = real_of_int (fst canvasDims) - b_right bnds;
            distanceToLeft = b_left bnds - 0;
            distanceToBottom = real_of_int (snd canvasDims) - b_bottom bnds;
            distanceToTop = b_top bnds - 0
        in if distanceToRight < LOAD_THRESHOLD then loadMore h DirRight s
           else if distanceToBottom < LOAD_THRESHOLD then loadMore h DirBottom s
           else if distanceToLeft < LOAD_THRESHOLD \<and> b_left bnds < LOAD_THRESHOLD
             then loadMore h DirLeft s
           else if distanceToTop < LOAD_THRESHOLD \<and> b_top bnds < LOAD_THRESHOLD
             then loadMore h DirTop s
           else Inr s)"

definition render :: "hook option \<Rightarrow> app \<Rightarrow> turn" where
  "render h s =
     (let s1 = s\<lparr>renderedItems := syncDOM (state s) (ITEM_DATA (data s)) (renderedItems s)\<rparr>
      in case checkBoundariesAndLoad h s1 of
           Inl e \<Rightarrow> Inl e
         | Inr s2 \<Rightarrow> Inr (s2\<lparr>renderAnimationFrame := None\<rparr>))"

definition handleMouseDown :: "int \<Rightarrow> real \<Rightarrow> real \<Rightarrow> app \<Rightarrow> app" where
  "handleMouseDown button clientX clientY s =
     (if button \<noteq> 0 then s
      else s\<lparr>state := (state s)\<lparr>isDragging := True,
                                  dragStartX := clientX, dragStartY := clientY,
                                  dragStartPanX := panX (state s),
                                  dragStartPanY := panY (state s)\<rparr>\<rparr>)"

definition handleMouseMove :: "hook option \<Rightarrow> real \<Rightarrow> real \<Rightarrow> app \<Rightarrow> turn" where
  "handleMouseMove h clientX clientY s =
     (if \<not> isDragging (state s) then Inr s
      else
        let deltaX = clientX - dragStartX (state s);
            deltaY = clientY - dragStartY (state s);
            s1 = s\<lparr>state := (state s)\<lparr>panX := dragStartPanX (state s) + deltaX,
                                        panY := dragStartPanY (state s) + deltaY\<rparr>\<rparr>
        in checkBoundariesAndLoad h (scheduleRender s1))"

definition handleMouseUp :: "app \<Rightarrow> app" where
  "handleMouseUp s =
     (if \<not> isDragging (state s) then s
      else scheduleRender (s\<lparr>state := (state s)\<lparr>isDragging := False\<rparr>\<rparr>))"

text \<open>
  \<open>handleWheel\<close>: \<open>deltaY\<close>, \<open>clientX\<close>, \<open>clientY\<close> are the fields of the event, \<open>rectLeft\<close>
  and \<open>rectTop\<close> those of \<open>viewport.getBoundingClientRect()\<close>.
\<close>

definition handleWheel ::
  "hook option \<Rightarrow> real \<Rightarrow> real \<Rightarrow> real \<Rightarrow> real \<Rightarrow> real \<Rightarrow> app \<Rightarrow> turn" where
  "handleWheel h deltaY clientX clientY rectLeft rectTop s =
     (let zoomSensitivity = 0.1;
          zoomDelta = - deltaY * zoomSensitivity / 1000;
          newZoom = max 0.1 (min 5.0 (zoom (state s) + zoomDelta));
          mouseX = clientX - rectLeft;
          mouseY = clientY - rectTop;
          worldX = (mouseX - panX (state s)) / zoom (state s);
          worldY = (mouseY - panY (state s)) / zoom (state s);
          s1 = s\<lparr>state := (state s)\<lparr>zoom := newZoom\<rparr>\<rparr>;
          s2 = s1\<lparr>state := (state s1)\<lparr>panX := mouseX - worldX * zoom (state s1),
                                        panY := mouseY - worldY * zoom (state s1)\<rparr>\<rparr>
      in checkBoundariesAndLoad h (scheduleRender s2))"

definition handleResize :: "real \<Rightarrow> real \<Rightarrow> app \<Rightarrow> app" where
  "handleResize clientWidth clientHeight s =
     scheduleRender (s\<lparr>state := (state s)\<lparr>viewportWidth := clientWidth,
                                            viewportHeight := clientHeight\<rparr>\<rparr>)"

definition initializeCanvas :: "real \<Rightarrow> real \<Rightarrow> app \<Rightarrow> app" where
  "initializeCanvas clientWidth clientHeight s =
     (let dimensions = calculateCanvasDimensions (ITEM_DATA (data s))
      in s\<lparr>state := (state s)\<lparr>canvasWidth := fst dimensions, canvasHeight := snd dimensions,
                                 viewportWidth := clientWidth,
                                 viewportHeight := clientHeight\<rparr>\<rparr>)"

definition loadFromCenter :: "hook option \<Rightarrow> app \<Rightarrow> turn" where
  "loadFromCenter h s =
     (let centerX = real_of_int (canvasWidth (state s)) / 2;
          centerY = real_of_int (canvasHeight (state s)) / 2;
          s1 = s\<lparr>state := (state s)\<lparr>
                 panX := viewportWidth (state s) / 2 - centerX * zoom (state s),
                 panY := viewportHeight (state s) / 2 - centerY * zoom (state s)\<rparr>\<rparr>
      in render h s1)"

text \<open>
  The events of a session, each handled in one turn: the mouse and wheel listeners, the
  resize listener, a frame in which the browser runs one pending animation-frame callback
  (\<open>render\<close>), and \<open>initialize\<close> / \<open>reinitializeWithNewData\<close> with the measured viewport
  size. The first argument of \<open>handle\<close> is the value of \<open>window.addMoreItemsToMEGHTOSH\<close>
  during that turn.
\<close>

datatype event =
    MouseDown int real real
  | MouseMove real real
  | MouseUp
  | Wheel real real real real real
  | Resize real real
  | AnimationFrame
  | Initialize real real

definition handle :: "hook option \<Rightarrow> event \<Rightarrow> app \<Rightarrow> turn" where
  "handle h e s =
     (case e of
        MouseDown button clientX clientY \<Rightarrow> Inr (handleMouseDown button clientX clientY s)
      | MouseMove clientX clientY \<Rightarrow> handleMouseMove h clientX clientY s
      | MouseUp \<Rightarrow> Inr (handleMouseUp s)
      | Wheel deltaY clientX clientY rectLeft rectTop \<Rightarrow>
          handleWheel h deltaY clientX clientY rectLeft rectTop s
      | Resize clientWidth clientHeight \<Rightarrow> Inr (handleResize clientWidth clientHeight s)
      | AnimationFrame \<Rightarrow>
          (if pendingFrames s = 0 then Inr s
           else render h (s\<lparr>pendingFrames := pendingFrames s - 1\<rparr>))
      | Initialize clientWidth clientHeight \<Rightarrow>
          loadFromCenter h (initializeCanvas clientWidth clientHeight s))"

text \<open>
  A session: the events in order, each with the hook value of its turn. An exception
  that leaves a listener or a frame callback uncaught ends that turn only: the page stays
  as it was at that moment and the next event is handled. The result \<open>None\<close> is a session
  that leaves the model (non-finite positions).
\<close>

fun run :: "(hook option \<times> event) list \<Rightarrow> app \<Rightarrow> app option" where
  "run [] s = Some s"
| "run ((h, e) # es) s =
     (case handle h e s of
        Inr s' \<Rightarrow> run es s'
      | Inl (RangeError, s') \<Rightarrow> run es s'
      | Inl (NonFinite, s') \<Rightarrow> None)"

text \<open>
  One call after another: the second is made on the page the first leaves, and not at all
  when the first is left by a failure.
\<close>

definition and_then :: "turn \<Rightarrow> (app \<Rightarrow> turn) \<Rightarrow> turn" where
  "and_then r f = (case r of Inl e \<Rightarrow> Inl e | Inr s \<Rightarrow> f s)"



section \<open>The lifetime of the store\<close>

text \<open>
  The stores of a session: the start-up value of the module variables, followed in any
  order by calls of \<open>addMoreItems\<close> that return (with any count, direction and random
  draws) and by the callback of \<open>loadItemData\<close> (on any file).
\<close>

inductive lifetime :: "nat \<Rightarrow> store \<Rightarrow> bool" for limit :: nat where
  start: "lifetime limit (initial_store isVideo)"
| append: "lifetime limit st
     \<Longrightarrow> addMoreItems limit count' direction isVideo st = Inr (newItems, st')
     \<Longrightarrow> lifetime limit st'"
| loaded: "lifetime limit st \<Longrightarrow> lifetime limit (dataLoaded (loadItemData file) st)"

text \<open>
  The invariant behind the id sequence, for a store on generated data: the ids are
  pairwise distinct, none exceeds the counter, and the counter itself is the id of an
  item.
\<close>

definition ids_inv :: "store \<Rightarrow> bool" where
  "ids_inv st \<longleftrightarrow> distinct (map item_id (ITEM_DATA st))
     \<and> globalItemIdCounter st \<in> set (map item_id (ITEM_DATA st))
     \<and> (\<forall>k \<in> set (map item_id (ITEM_DATA st)). k \<le> globalItemIdCounter st)"

section \<open>Example inputs\<close>

text \<open>
  The camera of the edge-case scenario: no pan, zoom 1, a viewport of 800 by 600, and the
  canvas of the start-up store (50 columns, 40 rows).
\<close>

definition camera0 :: camera where
  "camera0 = \<lparr>panX = 0, panY = 0, zoom = 1, isDragging = False,
     dragStartX = 0, dragStartY = 0, dragStartPanX = 0, dragStartPanY = 0,
     viewportWidth = 800, viewportHeight = 600, canvasWidth = 10000, canvasHeight = 8000\<rparr>"

text \<open>A photo item with id \<open>k\<close> at a grid cell.\<close>

definition cell :: "int \<Rightarrow> int \<Rightarrow> int \<Rightarrow> item" where
  "cell k column row = \<lparr>item_id = k, item_type = Photo,
     item_x = fst (gridToWorld column row), item_y = snd (gridToWorld column row),
     item_column = column, item_row = row\<rparr>"

text \<open>Random draws that never yield a video.\<close>

definition no_videos :: "nat \<Rightarrow> bool" where
  "no_videos i = False"

text \<open>The page on the start-up store, seen through \<open>camera0\<close>, before the first render.\<close>

definition start_page :: app where
  "start_page = \<lparr>state = camera0, renderedItems = [], renderAnimationFrame = None,
     pendingFrames = 0, isLoadingMore = False, data = initial_store no_videos,
     appendCalls = []\<rparr>"

text \<open>A store of 60 generated items: two rows, the columns starting at 0.\<close>

definition two_row_store :: store where
  "two_row_store = \<lparr>ITEM_DATA = fst (generateItemData 60 no_videos (Some 1) 0 0),
     globalItemIdCounter = snd (generateItemData 60 no_videos (Some 1) 0 0),
     usingRealData = False\<rparr>"

text \<open>
  A file as the extraction script of the repository writes it for two albums of one
  photo each: every album is numbered from 1 and the lists are put together. The second
  list is what \<open>loadItemData\<close> makes of it.
\<close>

definition merged_albums :: "file_item list" where
  "merged_albums =
     [\<lparr>file_id = Some 1, file_type = Some ''photo'',
       file_src = Some ''https://lh3.googleusercontent.com/a''\<rparr>,
      \<lparr>file_id = Some 1, file_type = Some ''photo'',
       file_src = Some ''https://lh3.googleusercontent.com/b''\<rparr>]"

definition merged_items :: "item list" where
  "merged_items =
     [\<lparr>item_id = 1, item_type = Photo, item_x = 0, item_y = 0,
       item_column = 0, item_row = 0\<rparr>,
      \<lparr>item_id = 1, item_type = Photo, item_x = 200, item_y = 0,
       item_column = 1, item_row = 0\<rparr>]"

text \<open>
  A registry of 502 entries, two above the cap: 499 entries with the keys 4 to 502,
  followed by the entries of three items that lie at the distances 50, 10 and 30 from the
  centre (400, 300) of the buffered bounds of \<open>camera0\<close>.
\<close>

definition entry :: "int \<Rightarrow> int \<times> element" where
  "entry k = (k, \<lparr>el_itemId = k, el_left = 0, el_top = 0\<rparr>)"

definition spot :: "int \<Rightarrow> int \<Rightarrow> int \<Rightarrow> item" where
  "spot k px py = \<lparr>item_id = k, item_type = Photo, item_x = px, item_y = py,
     item_column = px div ITEM_SIZE, item_row = py div ITEM_SIZE\<rparr>"

definition near_items :: "item list" where
  "near_items = [spot 1 350 200, spot 2 310 200, spot 3 330 200]"

definition crowded_registry :: registry where
  "crowded_registry = map entry [4..502] @ [entry 1, entry 2, entry 3]"

section \<open>The branch of a boundary check\<close>

text \<open>
  The branch of the \<open>if\<close> / \<open>else if\<close> chain of \<open>checkBoundariesAndLoad\<close> that a page
  state selects (with the same distances and the same order), or \<open>None\<close> when no
  condition of the chain holds.
\<close>

definition boundaryDirection :: "app \<Rightarrow> direction option" where
  "boundaryDirection s =
     (let bnds = calculateViewportBounds (state s);
          canvasDims = calculateCanvasDimensions (ITEM_DATA (data s));
          distanceToRight = real_of_int (fst canvasDims) - b_right bnds;
          distanceToLeft = b_left bnds - 0;
          distanceToBottom = real_of_int (snd canvasDims) - b_bottom bnds;
          distanceToTop = b_top bnds - 0
      in if distanceToRight < LOAD_THRESHOLD then Some DirRight
         else if distanceToBottom < LOAD_THRESHOLD then Some DirBottom
         else if distanceToLeft < LOAD_THRESHOLD \<and> b_left bnds < LOAD_THRESHOLD then Some DirLeft
         else if distanceToTop < LOAD_THRESHOLD \<and> b_top bnds < LOAD_THRESHOLD then Some DirTop
         else None)"

section \<open>Identifiers of the store\<close>

lemma generateItemData_ids:
  "map item_id (fst (generateItemData n v (Some b) si c)) = map (\<lambda>i. b + int i) [0..<n]"
  by (simp add: generateItemData_def generateItem_def Let_def)

lemma generateItemData_counter:
  "snd (generateItemData n v (Some b) si c) = b + int n - 1"
  by (simp add: generateItemData_def Let_def)

lemma generateItemData_length:
  "length (fst (generateItemData n v sid si c)) = n"
  by (simp add: generateItemData_def Let_def)

lemma forEach_idx_ids:
  assumes "\<And>idx it. item_id (f idx it) = item_id it"
  shows "map item_id (forEach_idx f xs) = map item_id xs"
proof -
  have "map item_id (forEach_idx f xs) = map (item_id \<circ> snd) (zip [0..<length xs] xs)"
    by (simp add: forEach_idx_def assms split_def comp_def)
  also have "\<dots> = map item_id (map snd (zip [0..<length xs] xs))"
    by (simp only: map_map)
  also have "\<dots> = map item_id xs"
    by simp
  finally show ?thesis .
qed

lemma positionLeft_id: "item_id (positionLeft mx my nc idx it) = item_id it"
  by (simp add: positionLeft_def Let_def)

lemma positionTop_id: "item_id (positionTop my nr idx it) = item_id it"
  by (simp add: positionTop_def Let_def)

lemma addMoreItems_effect:
  assumes "\<not> usingRealData st" "addMoreItems limit n d v st = Inr (new, st')"
  shows "map item_id new = map (\<lambda>i. globalItemIdCounter st + 1 + int i) [0..<n]"
    and "globalItemIdCounter st' = globalItemIdCounter st + int n"
    and "ITEM_DATA st' = ITEM_DATA st @ new \<or> ITEM_DATA st' = new @ ITEM_DATA st"
    and "\<not> usingRealData st'"
  using assms
  by (auto simp: addMoreItems_def Let_def split_def generateItemData_ids generateItemData_counter
      forEach_idx_ids positionLeft_id positionTop_id split: if_splits)

lemma addMoreItems_disabled:
  assumes "usingRealData st" "addMoreItems limit n d v st = Inr (new, st')"
  shows "new = [] \<and> st' = st"
  using assms by (simp add: addMoreItems_def)

lemma addMoreItems_returns:
  assumes "usingRealData st \<or> d = DirRight \<or> d = DirBottom
     \<or> (ITEM_DATA st \<noteq> [] \<and> length (ITEM_DATA st) \<le> limit)"
  shows "\<exists>new st'. addMoreItems limit n d v st = Inr (new, st')"
  using assms by (auto simp: addMoreItems_def Let_def split_def)

lemma addMoreItems_raises:
  assumes "\<not> usingRealData st" "d = DirLeft \<or> d = DirTop" "limit < length (ITEM_DATA st)"
  shows "addMoreItems limit n d v st = Inl RangeError"
  using assms by (auto simp: addMoreItems_def Let_def)

lemma addMoreItems_finite:
  assumes "ITEM_DATA st \<noteq> []"
  shows "addMoreItems limit n d v st \<noteq> Inl NonFinite"
  using assms by (auto simp: addMoreItems_def Let_def split_def)

lemma initial_store_generated: "\<not> usingRealData (initial_store v)"
  by (simp add: initial_store_def split_def Let_def)

lemma ids_inv_initial: "ids_inv (initial_store v)"
proof -
  have ids: "map item_id (ITEM_DATA (initial_store v)) = map (\<lambda>i. 1 + int i) [0..<2000]"
    using generateItemData_ids [of 2000 v 1 0 0]
    by (simp add: initial_store_def split_def Let_def)
  have c: "globalItemIdCounter (initial_store v) = 2000"
    using generateItemData_counter [of 2000 v 1 0 0]
    by (simp add: initial_store_def split_def Let_def)
  have d: "distinct (map (\<lambda>i. 1 + int i) [0..<2000])"
    by (simp add: distinct_map inj_on_def)
  have m: "(2000::int) \<in> set (map (\<lambda>i. 1 + int i) [0..<2000])"
  proof -
    have "(1999::nat) \<in> set [0..<2000]" by simp
    then have "1 + int 1999 \<in> (\<lambda>i. 1 + int i) ` set [0..<2000]" by (rule imageI)
    then show ?thesis by simp
  qed
  have b: "\<forall>k \<in> set (map (\<lambda>i. 1 + int i) [0..<2000]). k \<le> 2000"
    by auto
  show ?thesis
    unfolding ids_inv_def ids c using d m b by simp
qed

lemma ids_fresh:
  "distinct (map (\<lambda>i. (c::int) + 1 + int i) [0..<n])"
  by (simp add: distinct_map inj_on_def)

lemma ids_inv_step:
  assumes inv: "ids_inv st" and u: "\<not> usingRealData st"
    and step: "addMoreItems limit n d v st = Inr (new, st')"
  shows "ids_inv st'"
proof -
  note eff = addMoreItems_effect [OF u step]
  let ?old = "map item_id (ITEM_DATA st)"
  let ?c = "globalItemIdCounter st"
  have newids: "map item_id new = map (\<lambda>i. ?c + 1 + int i) [0..<n]" by (rule eff(1))
  have disj: "set (map item_id new) \<inter> set ?old = {}"
    using inv unfolding newids ids_inv_def by fastforce
  have setids: "set (map item_id (ITEM_DATA st')) = set ?old \<union> set (map item_id new)"
    using eff(3) by auto
  have dist: "distinct (map item_id (ITEM_DATA st'))"
    using eff(3) inv disj ids_fresh [of ?c n] unfolding ids_inv_def newids [symmetric]
    by (auto simp: Int_commute)
  have bound: "\<forall>k \<in> set (map item_id (ITEM_DATA st')). k \<le> globalItemIdCounter st'"
    using inv unfolding setids eff(2) newids ids_inv_def by fastforce
  have mem: "globalItemIdCounter st' \<in> set (map item_id (ITEM_DATA st'))"
  proof (cases n)
    case 0
    then show ?thesis using inv unfolding setids eff(2) ids_inv_def by simp
  next
    case (Suc m)
    have "m \<in> set [0..<n]" using Suc by simp
    then have "?c + 1 + int m \<in> (\<lambda>i. ?c + 1 + int i) ` set [0..<n]" by (rule imageI)
    then have "?c + int n \<in> set (map item_id new)"
      unfolding newids using Suc by simp
    then show ?thesis unfolding setids eff(2) by simp
  qed
  show ?thesis
    unfolding ids_inv_def using dist bound mem by simp
qed

lemma dataLoaded_cases:
  "dataLoaded loaded st = st \<or> usingRealData (dataLoaded loaded st)"
  by (simp add: dataLoaded_def split: option.splits)

lemma lifetime_ids_inv: "lifetime limit st \<Longrightarrow> usingRealData st \<or> ids_inv st"
proof (induction rule: lifetime.induct)
  case (start isVideo)
  show ?case using ids_inv_initial by simp
next
  case (append st count' direction isVideo newItems st')
  show ?case
  proof (cases "usingRealData st")
    case True
    from addMoreItems_disabled [OF True append.hyps(2)] True show ?thesis by simp
  next
    case False
    with append.IH have "ids_inv st" by simp
    from ids_inv_step [OF this False append.hyps(2)] show ?thesis by simp
  qed
next
  case (loaded st photos)
  then show ?case using dataLoaded_cases [of "loadItemData photos" st] by auto
qed

lemma ids_inv_Max: "ids_inv st \<Longrightarrow> Max (set (map item_id (ITEM_DATA st))) = globalItemIdCounter st"
  unfolding ids_inv_def by (intro Max_eqI) auto

text \<open>
  Claim C7, as amended. At every moment of the store's lifetime at which the store holds
  generated data (no file of real photos has replaced it), the item ids are pairwise
  distinct, and every append that returns gives its new items the ids that follow the
  largest id of the store, one after the other: they are strictly increasing, none is an
  id already in the store, and the ids of the store after the append are again pairwise
  distinct. Once a file has replaced the data, an append adds no item and leaves the
  store as it is.
\<close>

theorem store_ids_unique_and_sequential:
  assumes "lifetime limit st"
  shows "(\<not> usingRealData st \<longrightarrow>
           distinct (map item_id (ITEM_DATA st))
         \<and> (\<forall>count' direction isVideo newItems st'.
              addMoreItems limit count' direction isVideo st = Inr (newItems, st') \<longrightarrow>
                map item_id newItems
                  = map (\<lambda>i. Max (set (map item_id (ITEM_DATA st))) + 1 + int i) [0..<count']
              \<and> sorted_wrt (<) (map item_id newItems)
              \<and> set (map item_id newItems) \<inter> set (map item_id (ITEM_DATA st)) = {}
              \<and> distinct (map item_id (ITEM_DATA st'))))
     \<and> (usingRealData st \<longrightarrow>
           (\<forall>count' direction isVideo newItems st'.
              addMoreItems limit count' direction isVideo st = Inr (newItems, st') \<longrightarrow>
                newItems = [] \<and> st' = st))"
proof (intro conjI impI allI)
  assume u: "\<not> usingRealData st"
  with lifetime_ids_inv [OF assms] have inv: "ids_inv st" by simp
  have mx: "Max (set (map item_id (ITEM_DATA st))) = globalItemIdCounter st"
    using inv by (rule ids_inv_Max)
  show "distinct (map item_id (ITEM_DATA st))" using inv by (simp add: ids_inv_def)
  fix count' direction isVideo newItems st'
  assume step: "addMoreItems limit count' direction isVideo st = Inr (newItems, st')"
  note eff = addMoreItems_effect [OF u step]
  show "map item_id newItems
      = map (\<lambda>i. Max (set (map item_id (ITEM_DATA st))) + 1 + int i) [0..<count']"
    unfolding mx by (rule eff(1))
  show "sorted_wrt (<) (map item_id newItems)"
    unfolding eff(1) by (simp add: sorted_wrt_map sorted_wrt_iff_nth_less)
  show "set (map item_id newItems) \<inter> set (map item_id (ITEM_DATA st)) = {}"
    using inv unfolding eff(1) ids_inv_def by fastforce
  show "distinct (map item_id (ITEM_DATA st'))"
    using ids_inv_step [OF inv u step] by (simp add: ids_inv_def)
next
  fix count' direction isVideo newItems st'
  assume "usingRealData st"
    and "addMoreItems limit count' direction isVideo st = Inr (newItems, st')"
  then have "newItems = [] \<and> st' = st" by (rule addMoreItems_disabled)
  then show "newItems = []" and "st' = st" by simp_all
qed

lemma initial_store_length: "length (ITEM_DATA (initial_store v)) = 2000"
  using generateItemData_length [of 2000 v "Some 1" 0 0]
  by (simp add: initial_store_def split_def Let_def)

lemma merged_albums_loaded: "loadItemData (Some merged_albums) = Some merged_items"
  by (simp add: loadItemData_def merged_albums_def merged_items_def hasRealUrls_def
      forEach_idx_def loadedItem_def media_of_def js_rem_def GRID_COLUMNS_def ITEM_SIZE_def
      Let_def upt_rec)

theorem store_ids_unique_and_sequential_witness:
  "lifetime 125000 (initial_store no_videos) \<and> \<not> usingRealData (initial_store no_videos)
   \<and> distinct (map item_id (ITEM_DATA (initial_store no_videos)))
   \<and> (\<exists>newItems st'.
         addMoreItems 125000 2 DirLeft no_videos (initial_store no_videos) = Inr (newItems, st')
         \<and> map item_id newItems = [2001, 2002])
   \<and> usingRealData (dataLoaded (Some merged_items) (initial_store no_videos))
   \<and> addMoreItems 125000 2000 DirRight no_videos
        (dataLoaded (Some merged_items) (initial_store no_videos))
      = Inr ([], dataLoaded (Some merged_items) (initial_store no_videos))"
proof -
  let ?st = "initial_store no_videos"
  let ?ld = "dataLoaded (Some merged_items) ?st"
  have r: "lifetime 125000 ?st" by (rule lifetime.start)
  have u: "\<not> usingRealData ?st" by (rule initial_store_generated)
  have inv: "ids_inv ?st" by (rule ids_inv_initial)
  have c: "globalItemIdCounter ?st = 2000"
    using generateItemData_counter [of 2000 no_videos 1 0 0]
    by (simp add: initial_store_def split_def Let_def)
  have mx: "Max (set (map item_id (ITEM_DATA ?st))) = 2000"
    using ids_inv_Max [OF inv] c by simp
  have ne: "ITEM_DATA ?st \<noteq> [] \<and> length (ITEM_DATA ?st) \<le> 125000"
    using initial_store_length [of no_videos] by auto
  obtain newItems st' where
    step: "addMoreItems 125000 2 DirLeft no_videos ?st = Inr (newItems, st')"
    using addMoreItems_returns [of ?st DirLeft 125000 2 no_videos] ne by blast
  have two: "[0..<2] = [0, Suc 0]"
    by (simp add: upt_rec)
  from store_ids_unique_and_sequential [OF r] u step
  have d: "distinct (map item_id (ITEM_DATA ?st))"
    and ids: "map item_id newItems
        = map (\<lambda>i. Max (set (map item_id (ITEM_DATA ?st))) + 1 + int i) [0..<2]"
    by blast+
  have new: "map item_id newItems = [2001, 2002]"
    unfolding ids mx two by simp
  have ex: "\<exists>newItems st'.
         addMoreItems 125000 2 DirLeft no_videos ?st = Inr (newItems, st')
         \<and> map item_id newItems = [2001, 2002]"
    by (rule exI [of _ newItems], rule exI [of _ st'], rule conjI [OF step new])
  have r2: "lifetime 125000 ?ld"
    using lifetime.loaded [OF r, of "Some merged_albums"] by (simp add: merged_albums_loaded)
  have u2: "usingRealData ?ld"
    by (simp add: dataLoaded_def merged_items_def)
  obtain new2 st2 where
    step2: "addMoreItems 125000 2000 DirRight no_videos ?ld = Inr (new2, st2)"
    using addMoreItems_returns [of ?ld DirRight 125000 2000 no_videos] by blast
  from store_ids_unique_and_sequential [OF r2] u2 step2
  have "new2 = [] \<and> st2 = ?ld" by blast
  with step2 have off: "addMoreItems 125000 2000 DirRight no_videos ?ld = Inr ([], ?ld)"
    by simp
  show ?thesis using r u d ex u2 off by (intro conjI)
qed

text \<open>
  Claim C7 as stated fails. The callback of \<open>loadItemData\<close> replaces the store by the items
  of the file with the ids the file gives them: a file of two albums, each numbered from
  1, yields a store in which two items have the id 1.
\<close>

theorem loaded_file_repeats_ids_counterexample:
  "loadItemData (Some merged_albums) = Some merged_items
   \<and> lifetime 125000 (dataLoaded (loadItemData (Some merged_albums)) (initial_store no_videos))
   \<and> map item_id
        (ITEM_DATA (dataLoaded (loadItemData (Some merged_albums)) (initial_store no_videos)))
      = [1, 1]
   \<and> \<not> distinct (map item_id
        (ITEM_DATA (dataLoaded (loadItemData (Some merged_albums)) (initial_store no_videos))))"
proof -
  have l: "lifetime 125000
      (dataLoaded (loadItemData (Some merged_albums)) (initial_store no_videos))"
    by (rule lifetime.loaded [OF lifetime.start])
  have ids: "map item_id
        (ITEM_DATA (dataLoaded (loadItemData (Some merged_albums)) (initial_store no_videos)))
      = [1, 1]"
    unfolding merged_albums_loaded by (simp add: dataLoaded_def merged_items_def)
  then have "\<not> distinct (map item_id
        (ITEM_DATA (dataLoaded (loadItemData (Some merged_albums)) (initial_store no_videos))))"
    by simp
  with merged_albums_loaded l ids show ?thesis by (intro conjI)
qed

section \<open>Reconciliation\<close>

lemma fold_map_delete: "fold map_delete ks m = filter (\<lambda>p. fst p \<notin> set ks) m"
proof (induction ks arbitrary: m)
  case Nil
  then show ?case by simp
next
  case (Cons k ks)
  have "fold map_delete (k # ks) m = fold map_delete ks (map_delete k m)"
    by simp
  also have "\<dots> = filter (\<lambda>p. fst p \<notin> set ks) (map_delete k m)"
    by (rule Cons.IH)
  also have "\<dots> = filter (\<lambda>p. fst p \<notin> set (k # ks)) m"
    unfolding map_delete_def filter_filter by (rule filter_cong) auto
  finally show ?case .
qed

lemma removeInvisible_filter:
  "removeInvisible vis reg = filter (\<lambda>p. fst p \<in> set vis) reg"
  unfolding removeInvisible_def Let_def fold_map_delete
  by (rule filter_cong) auto

lemma itemDistances_selected:
  assumes "set (map fst reg) \<subseteq> set vis"
  shows "itemDistances bnds items vis reg = []"
proof -
  have "\<And>k. k \<in> set (map fst reg) \<Longrightarrow>
      (case find (\<lambda>i. item_id i = k) items of None \<Rightarrow> None
       | Some it \<Rightarrow> if item_id it \<notin> set vis then Some (k, itemDistance cx cy it) else None) = None"
    for cx cy
    using assms by (auto split: option.splits simp: find_Some_iff)
  then show ?thesis
    unfolding itemDistances_def Let_def List.map_filter_def
    by (simp add: filter_empty_conv)
qed

lemma evictFurthest_selected:
  assumes "set (map fst reg) \<subseteq> set vis"
  shows "evictFurthest c items vis reg = reg"
  unfolding evictFurthest_def Let_def itemDistances_selected [OF assms]
  by simp

lemma map_fst_map_set_new:
  "\<not> map_has k m \<Longrightarrow> map fst (map_set k v m) = map fst m @ [k]"
  by (simp add: map_set_def)

lemma addVisible_keys_set:
  "set (map fst (addVisible vs reg)) = set (map fst reg) \<union> set (map item_id vs)"
  unfolding addVisible_def
proof (induction vs arbitrary: reg)
  case Nil
  then show ?case by simp
next
  case (Cons it vs)
  show ?case
  proof (cases "map_has (item_id it) reg")
    case True
    then show ?thesis using Cons.IH [of reg] by (auto simp: map_has_def)
  next
    case False
    then show ?thesis
      using Cons.IH [of "map_set (item_id it)
          ((createItemElement it)\<lparr>el_left := item_x it, el_top := item_y it\<rparr>) reg"]
      by (auto simp: map_fst_map_set_new)
  qed
qed

lemma addVisible_keys_distinct:
  "distinct (map fst reg) \<Longrightarrow> distinct (map fst (addVisible vs reg))"
  unfolding addVisible_def
proof (induction vs arbitrary: reg)
  case Nil
  then show ?case by simp
next
  case (Cons it vs)
  show ?case
  proof (cases "map_has (item_id it) reg")
    case True
    then show ?thesis using Cons by simp
  next
    case False
    let ?reg = "map_set (item_id it)
          ((createItemElement it)\<lparr>el_left := item_x it, el_top := item_y it\<rparr>) reg"
    have "distinct (map fst ?reg)"
      using False Cons.prems by (simp add: map_fst_map_set_new map_has_def)
    then show ?thesis using False Cons.IH [of ?reg] by simp
  qed
qed

lemma updateItemPositions_keys: "map fst (updateItemPositions items reg) = map fst reg"
  unfolding updateItemPositions_def
  by (induction reg) (auto split: option.splits)

lemma syncDOM_keys_set:
  "set (map fst (syncDOM c items reg)) = set (map item_id (findVisibleItems c items))"
proof -
  let ?vis = "map item_id (findVisibleItems c items)"
  have sub: "set (map fst (removeInvisible ?vis reg)) \<subseteq> set ?vis"
    unfolding removeInvisible_filter by auto
  show ?thesis
    unfolding syncDOM_def Let_def updateItemPositions_keys
      evictFurthest_selected [OF sub] addVisible_keys_set
    using sub by auto
qed

lemma syncDOM_keys_distinct:
  assumes "distinct (map fst reg)"
  shows "distinct (map fst (syncDOM c items reg))"
proof -
  let ?vis = "map item_id (findVisibleItems c items)"
  have sub: "set (map fst (removeInvisible ?vis reg)) \<subseteq> set ?vis"
    unfolding removeInvisible_filter by auto
  have "distinct (map fst (removeInvisible ?vis reg))"
    unfolding removeInvisible_filter using assms by (simp add: distinct_map_filter)
  then show ?thesis
    unfolding syncDOM_def Let_def updateItemPositions_keys evictFurthest_selected [OF sub]
    by (rule addVisible_keys_distinct)
qed

lemma syncDOM_length:
  assumes "distinct (map fst reg)"
  shows "length (syncDOM c items reg) = card (set (map item_id (findVisibleItems c items)))"
proof -
  have "length (syncDOM c items reg) = length (map fst (syncDOM c items reg))" by simp
  also have "\<dots> = card (set (map fst (syncDOM c items reg)))"
    using syncDOM_keys_distinct [OF assms] by (simp only: distinct_card)
  finally show ?thesis unfolding syncDOM_keys_set .
qed


text \<open>
  Claim C9. After \<open>syncDOM\<close> the keys of the registry are exactly the ids of the items
  selected by \<open>findVisibleItems\<close>. After the removal step every key left in the registry
  is a selected id, so the memory-management block collects no candidate
  (\<open>itemDistances\<close> is empty) and returns the registry as it got it.
\<close>

theorem syncDOM_registry_is_selection:
  "set (map fst (syncDOM c items reg)) = set (map item_id (findVisibleItems c items))
   \<and> set (map fst (removeInvisible (map item_id (findVisibleItems c items)) reg))
        \<subseteq> set (map item_id (findVisibleItems c items))
   \<and> itemDistances (calculateViewportBounds c) items (map item_id (findVisibleItems c items))
        (removeInvisible (map item_id (findVisibleItems c items)) reg) = []
   \<and> evictFurthest c items (map item_id (findVisibleItems c items))
        (removeInvisible (map item_id (findVisibleItems c items)) reg)
      = removeInvisible (map item_id (findVisibleItems c items)) reg"
proof -
  let ?vis = "map item_id (findVisibleItems c items)"
  have sub: "set (map fst (removeInvisible ?vis reg)) \<subseteq> set ?vis"
    unfolding removeInvisible_filter by auto
  show ?thesis
    using sub syncDOM_keys_set itemDistances_selected [OF sub] evictFurthest_selected [OF sub]
    by blast
qed

text \<open>
  Claim C3. For a registry with distinct keys (a \<open>Map\<close>), after \<open>syncDOM\<close> the registry
  has at most \<open>MAX_DOM_NODES\<close> entries unless more than \<open>MAX_DOM_NODES\<close> items are
  selected, and in every case each selected item has an entry in the registry.
\<close>

theorem syncDOM_cap:
  assumes "distinct (map fst reg)"
  shows "(length (syncDOM c items reg) \<le> MAX_DOM_NODES
          \<or> MAX_DOM_NODES < length (findVisibleItems c items))
       \<and> (\<forall>it \<in> set (findVisibleItems c items). map_has (item_id it) (syncDOM c items reg))"
proof -
  have "card (set (map item_id (findVisibleItems c items))) \<le> length (findVisibleItems c items)"
    using card_length [of "map item_id (findVisibleItems c items)"] by simp
  then have "length (syncDOM c items reg) \<le> length (findVisibleItems c items)"
    unfolding syncDOM_length [OF assms] .
  moreover have "\<forall>it \<in> set (findVisibleItems c items). map_has (item_id it) (syncDOM c items reg)"
    unfolding map_has_def syncDOM_keys_set by simp
  ultimately show ?thesis by linarith
qed

lemma bounds_camera0:
  "calculateViewportBounds camera0
     = \<lparr>b_left = -600, b_top = -600, b_right = 1400, b_bottom = 1200\<rparr>"
  by (simp add: calculateViewportBounds_def screenToWorld_def camera0_def BUFFER_SIZE_def
      ITEM_SIZE_def Let_def)

lemma visible_example:
  "findVisibleItems camera0 [cell 1 4 0, cell 2 8 0, cell 3 0 (-5)] = [cell 1 4 0]"
  by (simp add: findVisibleItems_def bounds_camera0 itemIntersectsViewport_def cell_def
      gridToWorld_def ITEM_SIZE_def Let_def)

theorem syncDOM_cap_witness:
  "distinct (map fst [(2, \<lparr>el_itemId = 2, el_left = 1600, el_top = 0\<rparr>)])
   \<and> length (syncDOM camera0 [cell 1 4 0, cell 2 8 0, cell 3 0 (-5)]
        [(2, \<lparr>el_itemId = 2, el_left = 1600, el_top = 0\<rparr>)]) \<le> MAX_DOM_NODES
   \<and> map_has 1 (syncDOM camera0 [cell 1 4 0, cell 2 8 0, cell 3 0 (-5)]
        [(2, \<lparr>el_itemId = 2, el_left = 1600, el_top = 0\<rparr>)])"
proof -
  let ?reg = "[(2, \<lparr>el_itemId = 2, el_left = 1600, el_top = 0\<rparr>)]"
  let ?items = "[cell 1 4 0, cell 2 8 0, cell 3 0 (-5)]"
  have d: "distinct (map fst ?reg)" by simp
  have id1: "item_id (cell 1 4 0) = 1" by (simp add: cell_def)
  from syncDOM_cap [OF d, of camera0 ?items]
  have "length (syncDOM camera0 ?items ?reg) \<le> MAX_DOM_NODES"
    and "map_has 1 (syncDOM camera0 ?items ?reg)"
    unfolding visible_example by (simp_all add: MAX_DOM_NODES_def id1)
  with d show ?thesis by (intro conjI)
qed


section \<open>Visibility\<close>

text \<open>
  Claim C8. With pan (0, 0), zoom 1 and a viewport of 800 by 600 (cell size 200, buffer of
  3 cells) the buffered bounds are left -600, top -600, right 1400, bottom 1200; the grid
  cell (4, 0) is at world position (800, 0); an item at that position intersects the
  bounds and, when it is in the store, is among the items \<open>findVisibleItems\<close> selects.
\<close>

theorem edge_case_scenario:
  assumes "panX c = 0" "panY c = 0" "zoom c = 1"
    and "viewportWidth c = 800" "viewportHeight c = 600"
    and "item_x it = fst (gridToWorld 4 0)" "item_y it = snd (gridToWorld 4 0)"
  shows "calculateViewportBounds c
           = \<lparr>b_left = -600, b_top = -600, b_right = 1400, b_bottom = 1200\<rparr>
     \<and> gridToWorld 4 0 = (800, 0)
     \<and> real_of_int (item_x it) = 800 \<and> real_of_int (item_x it + ITEM_SIZE) = 1000
     \<and> real_of_int (item_y it) = 0 \<and> real_of_int (item_y it + ITEM_SIZE) = 200
     \<and> itemIntersectsViewport it (calculateViewportBounds c)
     \<and> (it \<in> set items \<longrightarrow> it \<in> set (findVisibleItems c items))"
  using assms
  by (simp add: calculateViewportBounds_def screenToWorld_def gridToWorld_def
      itemIntersectsViewport_def findVisibleItems_def BUFFER_SIZE_def ITEM_SIZE_def Let_def)

theorem edge_case_scenario_witness:
  "panX camera0 = 0 \<and> panY camera0 = 0 \<and> zoom camera0 = 1
   \<and> viewportWidth camera0 = 800 \<and> viewportHeight camera0 = 600
   \<and> item_column (cell 1 4 0) = 4 \<and> item_row (cell 1 4 0) = 0
   \<and> cell 1 4 0 \<in> set [cell 1 4 0, cell 2 8 0]
   \<and> calculateViewportBounds camera0
           = \<lparr>b_left = -600, b_top = -600, b_right = 1400, b_bottom = 1200\<rparr>
   \<and> cell 1 4 0 \<in> set (findVisibleItems camera0 [cell 1 4 0, cell 2 8 0])"
proof -
  have c: "panX camera0 = 0" "panY camera0 = 0" "zoom camera0 = 1"
    "viewportWidth camera0 = 800" "viewportHeight camera0 = 600"
    by (simp_all add: camera0_def)
  have i: "item_x (cell 1 4 0) = fst (gridToWorld 4 0)"
    "item_y (cell 1 4 0) = snd (gridToWorld 4 0)"
    "item_column (cell 1 4 0) = 4" "item_row (cell 1 4 0) = 0"
    by (simp_all add: cell_def)
  have m: "cell 1 4 0 \<in> set [cell 1 4 0, cell 2 8 0]" by simp
  from edge_case_scenario [OF c i(1,2), of "[cell 1 4 0, cell 2 8 0]"] m
  have "calculateViewportBounds camera0
           = \<lparr>b_left = -600, b_top = -600, b_right = 1400, b_bottom = 1200\<rparr>"
    and "cell 1 4 0 \<in> set (findVisibleItems camera0 [cell 1 4 0, cell 2 8 0])"
    by blast+
  with c i(3,4) m show ?thesis by (intro conjI)
qed

section \<open>Boundary checks and the camera\<close>

lemma checkBoundariesAndLoad_branch:
  "checkBoundariesAndLoad h s =
     (if isLoadingMore s \<or> ITEM_DATA (data s) = [] then Inr s
      else case boundaryDirection s of None \<Rightarrow> Inr s | Some d \<Rightarrow> loadMore h d s)"
  by (simp add: checkBoundariesAndLoad_def boundaryDirection_def Let_def)

lemma checkBoundariesAndLoad_guarded:
  "isLoadingMore s \<Longrightarrow> checkBoundariesAndLoad h s = Inr s"
  by (simp add: checkBoundariesAndLoad_def)

lemma scheduleRender_fields:
  "isLoadingMore (scheduleRender s) = isLoadingMore s"
  "appendCalls (scheduleRender s) = appendCalls s"
  "data (scheduleRender s) = data s"
  "renderedItems (scheduleRender s) = renderedItems s"
  "state (scheduleRender s) = state s"
  by (simp_all add: scheduleRender_def)

lemma updateCanvasSize_fields:
  "isLoadingMore (updateCanvasSize s) = isLoadingMore s"
  "appendCalls (updateCanvasSize s) = appendCalls s"
  "data (updateCanvasSize s) = data s"
  "(canvasWidth (state (updateCanvasSize s)), canvasHeight (state (updateCanvasSize s)))
     = calculateCanvasDimensions (ITEM_DATA (data s))"
  "panX (state (updateCanvasSize s)) = panX (state s)"
  "panY (state (updateCanvasSize s)) = panY (state s)"
  "zoom (state (updateCanvasSize s)) = zoom (state s)"
  by (simp_all add: updateCanvasSize_def Let_def)

text \<open>
  The append function of data.js on a page with a non-empty store: it returns, having
  changed the store only, or it is left by \<open>RangeError\<close> with the page untouched, and that
  only for a store of more than \<open>limit\<close> items.
\<close>

lemma window_addMoreItems_outcome:
  assumes "ITEM_DATA (data s) \<noteq> []"
  shows "(\<exists>newItems st'. addMoreItems limit n d v (data s) = Inr (newItems, st')
            \<and> window_addMoreItems limit v n d s = Inr (s\<lparr>data := st'\<rparr>))
       \<or> (window_addMoreItems limit v n d s = Inl (RangeError, s)
            \<and> limit < length (ITEM_DATA (data s)))"
proof (cases "addMoreItems limit n d v (data s)")
  case (Inr r)
  then show ?thesis by (cases r) (simp add: window_addMoreItems_def)
next
  case (Inl e)
  have "e = RangeError"
    using Inl addMoreItems_finite [OF assms, of limit n d v] by (cases e) auto
  moreover have "limit < length (ITEM_DATA (data s))"
    using Inl addMoreItems_returns [of "data s" d limit n v] assms by (cases "limit < length (ITEM_DATA (data s))") auto
  ultimately show ?thesis using Inl by (simp add: window_addMoreItems_def)
qed

lemma loadMore_window:
  assumes "ITEM_DATA (data s) \<noteq> []"
  shows "(\<exists>s' newItems. loadMore (Some (window_addMoreItems limit v)) d s = Inr s'
            \<and> appendCalls s' = appendCalls s @ [(2000, d)]
            \<and> \<not> isLoadingMore s'
            \<and> addMoreItems limit 2000 d v (data s) = Inr (newItems, data s')
            \<and> (canvasWidth (state s'), canvasHeight (state s'))
                 = calculateCanvasDimensions (ITEM_DATA (data s'))
            \<and> panX (state s') = panX (state s) \<and> panY (state s') = panY (state s)
            \<and> zoom (state s') = zoom (state s)
            \<and> (renderAnimationFrame s \<noteq> None \<longrightarrow> pendingFrames s' = pendingFrames s))
       \<or> (loadMore (Some (window_addMoreItems limit v)) d s
              = Inl (RangeError,
                  s\<lparr>isLoadingMore := True, appendCalls := appendCalls s @ [(2000, d)]\<rparr>)
            \<and> limit < length (ITEM_DATA (data s)))"
proof -
  let ?s1 = "s\<lparr>isLoadingMore := True, appendCalls := appendCalls s @ [(2000, d)]\<rparr>"
  have ne: "ITEM_DATA (data ?s1) \<noteq> []" using assms by simp
  from window_addMoreItems_outcome [OF ne, of limit 2000 d v]
  show ?thesis
  proof (elim disjE exE conjE)
    fix newItems st'
    assume step: "addMoreItems limit 2000 d v (data ?s1) = Inr (newItems, st')"
      and w: "window_addMoreItems limit v 2000 d ?s1 = Inr (?s1\<lparr>data := st'\<rparr>)"
    let ?s' = "scheduleRender ((updateCanvasSize (?s1\<lparr>data := st'\<rparr>))\<lparr>isLoadingMore := False\<rparr>)"
    have lm: "loadMore (Some (window_addMoreItems limit v)) d s = Inr ?s'"
      by (simp add: loadMore_def Let_def w)
    have "appendCalls ?s' = appendCalls s @ [(2000, d)]" "\<not> isLoadingMore ?s'"
      "data ?s' = st'"
      "(canvasWidth (state ?s'), canvasHeight (state ?s'))
          = calculateCanvasDimensions (ITEM_DATA (data ?s'))"
      "panX (state ?s') = panX (state s)" "panY (state ?s') = panY (state s)"
      "zoom (state ?s') = zoom (state s)"
      "renderAnimationFrame s \<noteq> None \<longrightarrow> pendingFrames ?s' = pendingFrames s"
      by (simp_all add: scheduleRender_def updateCanvasSize_def Let_def)
    with lm step show ?thesis by (intro disjI1 exI [of _ ?s'] exI [of _ newItems]) simp
  next
    assume w: "window_addMoreItems limit v 2000 d ?s1 = Inl (RangeError, ?s1)"
      and big: "limit < length (ITEM_DATA (data ?s1))"
    have "loadMore (Some (window_addMoreItems limit v)) d s = Inl (RangeError, ?s1)"
      by (simp add: loadMore_def Let_def w)
    with big show ?thesis by simp
  qed
qed

text \<open>
  A boundary check with the append function of data.js, or with none: it returns or is
  left by \<open>RangeError\<close>, it returns whenever the store has at most \<open>limit\<close> items, and it
  leaves pan and zoom as they are.
\<close>

lemma checkBoundariesAndLoad_outcome:
  assumes "h = None \<or> h = Some (window_addMoreItems limit v)"
  shows "\<exists>s'. (checkBoundariesAndLoad h s = Inr s'
               \<or> checkBoundariesAndLoad h s = Inl (RangeError, s'))
     \<and> panX (state s') = panX (state s) \<and> panY (state s') = panY (state s)
     \<and> zoom (state s') = zoom (state s)
     \<and> (length (ITEM_DATA (data s)) \<le> limit \<longrightarrow> checkBoundariesAndLoad h s = Inr s')"
proof (cases "isLoadingMore s \<or> ITEM_DATA (data s) = [] \<or> boundaryDirection s = None")
  case True
  then have "checkBoundariesAndLoad h s = Inr s"
    by (auto simp: checkBoundariesAndLoad_branch)
  then show ?thesis by auto
next
  case False
  then obtain d where d: "boundaryDirection s = Some d" and ne: "ITEM_DATA (data s) \<noteq> []"
    by auto
  have chk: "checkBoundariesAndLoad h s = loadMore h d s"
    using False d by (simp add: checkBoundariesAndLoad_branch)
  show ?thesis
  proof (cases h)
    case None
    then have "loadMore h d s = Inr (s\<lparr>isLoadingMore := True\<rparr>)"
      by (simp add: loadMore_def)
    then show ?thesis unfolding chk by auto
  next
    case (Some f)
    with assms have f: "h = Some (window_addMoreItems limit v)" by simp
    have chk': "checkBoundariesAndLoad h s = loadMore (Some (window_addMoreItems limit v)) d s"
      using chk f by simp
    from loadMore_window [OF ne, of limit v d] show ?thesis
    proof (elim disjE exE conjE)
      fix s' newItems
      assume "loadMore (Some (window_addMoreItems limit v)) d s = Inr s'"
        "panX (state s') = panX (state s)" "panY (state s') = panY (state s)"
        "zoom (state s') = zoom (state s)"
      then show ?thesis unfolding chk' by (intro exI [of _ s']) simp
    next
      let ?s1 = "s\<lparr>isLoadingMore := True, appendCalls := appendCalls s @ [(2000, d)]\<rparr>"
      assume "loadMore (Some (window_addMoreItems limit v)) d s = Inl (RangeError, ?s1)"
        "limit < length (ITEM_DATA (data s))"
      then show ?thesis unfolding chk' by (intro exI [of _ ?s1]) simp
    qed
  qed
qed

text \<open>
  Claim C5. For a camera with positive zoom, the wheel handler (with the append function
  of data.js installed, or none) ends with the new zoom in [0.1, 5.0] and with the world
  point under the cursor, \<open>screenToWorld\<close> of the mouse position, the same with the new
  pan and zoom as with the old ones; this holds as well when the boundary check at the
  end of the handler is left by \<open>RangeError\<close>, and the handler returns whenever the store
  has at most \<open>limit\<close> items. Numbers are exact reals here, so the two world points are
  equal, not merely close.
\<close>

theorem zoom_anchored_at_cursor:
  assumes "0 < zoom (state s)"
    and "h = None \<or> h = Some (window_addMoreItems limit isVideo)"
  shows "\<exists>s'. (handleWheel h deltaY clientX clientY rectLeft rectTop s = Inr s'
              \<or> handleWheel h deltaY clientX clientY rectLeft rectTop s = Inl (RangeError, s'))
     \<and> 0.1 \<le> zoom (state s') \<and> zoom (state s') \<le> 5.0
     \<and> screenToWorld (state s') (clientX - rectLeft) (clientY - rectTop)
       = screenToWorld (state s) (clientX - rectLeft) (clientY - rectTop)
     \<and> (length (ITEM_DATA (data s)) \<le> limit \<longrightarrow>
          handleWheel h deltaY clientX clientY rectLeft rectTop s = Inr s')"
proof -
  define z where "z = max 0.1 (min 5.0 (zoom (state s) + (- deltaY * 0.1 / 1000)))"
  define mx where "mx = clientX - rectLeft"
  define my where "my = clientY - rectTop"
  define s2 where "s2 = s\<lparr>state := (state s)\<lparr>zoom := z,
      panX := mx - (mx - panX (state s)) / zoom (state s) * z,
      panY := my - (my - panY (state s)) / zoom (state s) * z\<rparr>\<rparr>"
  have hw: "handleWheel h deltaY clientX clientY rectLeft rectTop s
      = checkBoundariesAndLoad h (scheduleRender s2)"
    by (simp add: handleWheel_def Let_def s2_def z_def mx_def my_def)
  have dat: "data (scheduleRender s2) = data s"
    by (simp add: scheduleRender_fields s2_def)
  from checkBoundariesAndLoad_outcome [OF assms(2), of "scheduleRender s2"]
  obtain s' where
    s': "checkBoundariesAndLoad h (scheduleRender s2) = Inr s'
         \<or> checkBoundariesAndLoad h (scheduleRender s2) = Inl (RangeError, s')"
    and cam0: "panX (state s') = panX (state (scheduleRender s2))"
      "panY (state s') = panY (state (scheduleRender s2))"
      "zoom (state s') = zoom (state (scheduleRender s2))"
    and ret: "length (ITEM_DATA (data s)) \<le> limit \<longrightarrow>
        checkBoundariesAndLoad h (scheduleRender s2) = Inr s'"
    unfolding dat by blast
  have zpos: "0.1 \<le> z" "z \<le> 5.0" by (simp_all add: z_def)
  then have znz: "z \<noteq> 0" by simp
  have cam: "panX (state s') = mx - (mx - panX (state s)) / zoom (state s) * z"
    "panY (state s') = my - (my - panY (state s)) / zoom (state s) * z"
    "zoom (state s') = z"
    using cam0 by (simp_all add: scheduleRender_fields s2_def)
  have "screenToWorld (state s') mx my = screenToWorld (state s) mx my"
    unfolding screenToWorld_def cam using znz by simp
  then show ?thesis
    unfolding hw using s' ret zpos cam(3) by (intro exI [of _ s']) (simp add: mx_def my_def)
qed

lemma start_page_data:
  "ITEM_DATA (data start_page) = fst (generateItemData 2000 no_videos (Some 1) 0 0)"
  by (simp add: start_page_def initial_store_def Let_def split_def)

lemma start_page_length: "length (ITEM_DATA (data start_page)) = 2000"
  unfolding start_page_data by (rule generateItemData_length)

lemma start_page_nonempty: "ITEM_DATA (data start_page) \<noteq> []"
  using start_page_length by auto

lemma start_page_idle: "\<not> isLoadingMore start_page" "appendCalls start_page = []"
  "state start_page = camera0"
  by (simp_all add: start_page_def)

theorem zoom_anchored_at_cursor_witness:
  "0 < zoom (state start_page)
   \<and> (\<exists>s'. handleWheel None (-1000) 500 350 100 50 start_page = Inr s'
          \<and> screenToWorld (state s') 400 300 = (400, 300))"
proof -
  have z: "0 < zoom (state start_page)"
    by (simp add: start_page_def camera0_def)
  have w: "screenToWorld (state start_page) (500 - 100) (350 - 50) = (400, 300)"
    by (simp add: screenToWorld_def start_page_def camera0_def)
  have h: "None = None \<or> None = Some (window_addMoreItems 125000 no_videos)"
    by simp
  have len: "length (ITEM_DATA (data start_page)) \<le> 125000"
    by (simp add: start_page_length)
  from zoom_anchored_at_cursor [OF z h, where deltaY = "-1000" and clientX = 500
      and clientY = 350 and rectLeft = 100 and rectTop = 50] len
  obtain s' where "handleWheel None (-1000) 500 350 100 50 start_page = Inr s'"
    and "screenToWorld (state s') (500 - 100) (350 - 50)
       = screenToWorld (state start_page) (500 - 100) (350 - 50)"
    by blast
  then have "handleWheel None (-1000) 500 350 100 50 start_page = Inr s'
          \<and> screenToWorld (state s') 400 300 = (400, 300)"
    using w by simp
  then have "\<exists>s'. handleWheel None (-1000) 500 350 100 50 start_page = Inr s'
          \<and> screenToWorld (state s') 400 300 = (400, 300)" ..
  with z show ?thesis by (intro conjI)
qed

section \<open>Appending to the left\<close>

lemma upt_5: "[0..<5] = [0, 1, 2, 3, 4]"
  by (simp add: upt_rec)

lemma min_x_of_min_column:
  assumes ne: "xs \<noteq> []"
    and cons: "\<forall>it \<in> set xs. item_x it = item_column it * ITEM_SIZE"
  shows "min_list (map item_x xs) = min_list (map item_column xs) * ITEM_SIZE"
proof -
  have mono: "mono (\<lambda>c::int. c * ITEM_SIZE)"
    by (rule monoI) (simp add: ITEM_SIZE_def)
  have img: "item_x ` set xs = (\<lambda>c. c * ITEM_SIZE) ` (item_column ` set xs)"
    using cons by (auto simp: image_iff)
  have "min_list (map item_x xs) = Min (item_x ` set xs)"
    using ne by (simp add: min_list_Min)
  also have "\<dots> = Min ((\<lambda>c. c * ITEM_SIZE) ` (item_column ` set xs))"
    by (simp only: img)
  also have "\<dots> = Min (item_column ` set xs) * ITEM_SIZE"
    using ne by (intro mono_Min_commute [OF mono, symmetric]) auto
  also have "Min (item_column ` set xs) = min_list (map item_column xs)"
    using ne by (simp add: min_list_Min)
  finally show ?thesis .
qed

lemma ceil_div_rows:
  assumes "50 < n" "n \<le> 100"
  shows "math_ceil_div (int n) GRID_COLUMNS = 2"
  using assms unfolding math_ceil_div_def GRID_COLUMNS_def by linarith


text \<open>
  Claim C4. Take a store on generated data whose row count, as \<open>addMoreItems\<close> computes
  it, is 2, whose items have \<open>x = column * ITEM_SIZE\<close> and whose smallest column is 0,
  on an engine that admits a spread call over the items of the store.
  Appending 5 items to the left returns five new items in the cells (-3, r), (-2, r),
  (-1, r), (-3, r + 1), (-2, r + 1), where r is the smallest row of the store: every new
  column is below 0, the new columns are exactly -3, -2, -1 (the three columns just before
  column 0), the pixel positions of the new items agree with their cells, and the new
  \<open>ITEM_DATA\<close> is the new items followed by the old list, item for item as it was.
\<close>

theorem append_left_tiling:
  assumes real: "\<not> usingRealData st"
    and rows: "math_ceil_div (int (length (ITEM_DATA st))) GRID_COLUMNS = 2"
    and cons: "\<forall>it \<in> set (ITEM_DATA st). item_x it = item_column it * ITEM_SIZE"
    and mincol: "min_list (map item_column (ITEM_DATA st)) = 0"
    and engine: "length (ITEM_DATA st) \<le> limit"
  shows "\<exists>newItems st'. addMoreItems limit 5 DirLeft isVideo st = Inr (newItems, st')
     \<and> map (\<lambda>n. (item_column n, item_row n)) newItems
         = (let r = min_list (map item_y (ITEM_DATA st)) div ITEM_SIZE
            in [(-3, r), (-2, r), (-1, r), (-3, r + 1), (-2, r + 1)])
     \<and> (\<forall>n \<in> set newItems. item_column n < 0
           \<and> item_x n = item_column n * ITEM_SIZE \<and> item_y n = item_row n * ITEM_SIZE)
     \<and> set (map item_column newItems) = {-3..-1}
     \<and> ITEM_DATA st' = newItems @ ITEM_DATA st"
proof -
  have ne: "ITEM_DATA st \<noteq> []"
    using rows by (auto simp: math_ceil_div_def)
  have minx: "min_list (map item_x (ITEM_DATA st)) = 0"
    using min_x_of_min_column [OF ne cons] mincol by simp
  define c where "c = globalItemIdCounter st"
  define my where "my = min_list (map item_y (ITEM_DATA st))"
  define g where "g = generateItem isVideo (c + 1) (- 5)"
  define new where "new = [positionLeft 0 my 3 0 (g 0), positionLeft 0 my 3 1 (g 1),
      positionLeft 0 my 3 2 (g 2), positionLeft 0 my 3 3 (g 3), positionLeft 0 my 3 4 (g 4)]"
  define gs where "gs = [g 0, g 1, g 2, g 3, g 4]"
  have gen: "generateItemData 5 isVideo (Some (c + 1)) (- 5) c = (gs, c + 5)"
    by (simp add: generateItemData_def Let_def upt_5 g_def gs_def)
  have nc: "math_ceil_div 5 2 = 3"
    by (simp add: math_ceil_div_def)
  have fe: "forEach_idx (positionLeft 0 my 3) gs = new"
    by (simp add: forEach_idx_def new_def gs_def eval_nat_numeral)
  have step: "addMoreItems limit 5 DirLeft isVideo st
      = Inr (new, st\<lparr>ITEM_DATA := new @ ITEM_DATA st, globalItemIdCounter := c + 5\<rparr>)"
    using real ne engine
    by (simp add: addMoreItems_def Let_def rows minx nc gen fe c_def [symmetric] my_def [symmetric])
  have cells: "map (\<lambda>n. (item_column n, item_row n)) new
      = (let r = my div ITEM_SIZE in [(-3, r), (-2, r), (-1, r), (-3, r + 1), (-2, r + 1)])"
    by (simp add: new_def positionLeft_def js_rem_def ITEM_SIZE_def Let_def)
  have pos: "\<forall>n \<in> set new. item_column n < 0
           \<and> item_x n = item_column n * ITEM_SIZE \<and> item_y n = item_row n * ITEM_SIZE"
    by (simp add: new_def positionLeft_def js_rem_def ITEM_SIZE_def Let_def)
  have cols: "set (map item_column new) = {-3..-1}"
    by (auto simp: new_def positionLeft_def js_rem_def ITEM_SIZE_def Let_def)
  show ?thesis
    using step cells pos cols unfolding my_def by simp
qed

lemma two_row_length: "length (ITEM_DATA two_row_store) = 60"
  by (simp add: two_row_store_def generateItemData_length)

lemma two_row_mincol: "min_list (map item_column (ITEM_DATA two_row_store)) = 0"
  unfolding two_row_store_def by code_simp

lemma two_row_miny: "min_list (map item_y (ITEM_DATA two_row_store)) = 0"
  unfolding two_row_store_def by code_simp

lemma generateItem_consistent: "item_x (generateItem v b si i) = item_column (generateItem v b si i) * ITEM_SIZE"
  by (simp add: generateItem_def Let_def)

lemma two_row_cons: "\<forall>it \<in> set (ITEM_DATA two_row_store). item_x it = item_column it * ITEM_SIZE"
  by (auto simp: two_row_store_def generateItemData_def Let_def generateItem_consistent)


theorem append_left_tiling_witness:
  "\<not> usingRealData two_row_store
   \<and> math_ceil_div (int (length (ITEM_DATA two_row_store))) GRID_COLUMNS = 2
   \<and> min_list (map item_column (ITEM_DATA two_row_store)) = 0
   \<and> length (ITEM_DATA two_row_store) \<le> 125000
   \<and> (\<exists>newItems st'.
         addMoreItems 125000 5 DirLeft no_videos two_row_store = Inr (newItems, st')
         \<and> map (\<lambda>n. (item_column n, item_row n)) newItems
              = [(-3, 0), (-2, 0), (-1, 0), (-3, 1), (-2, 1)]
         \<and> ITEM_DATA st' = newItems @ ITEM_DATA two_row_store)"
proof -
  have u: "\<not> usingRealData two_row_store"
    by (simp add: two_row_store_def)
  have r: "math_ceil_div (int (length (ITEM_DATA two_row_store))) GRID_COLUMNS = 2"
    unfolding two_row_length by (rule ceil_div_rows) simp_all
  have e: "length (ITEM_DATA two_row_store) \<le> 125000"
    by (simp add: two_row_length)
  from append_left_tiling [OF u r two_row_cons two_row_mincol e, of no_videos]
  obtain newItems st' where
    step: "addMoreItems 125000 5 DirLeft no_videos two_row_store = Inr (newItems, st')"
    and cells: "map (\<lambda>n. (item_column n, item_row n)) newItems
         = (let r = min_list (map item_y (ITEM_DATA two_row_store)) div ITEM_SIZE
            in [(-3, r), (-2, r), (-1, r), (-3, r + 1), (-2, r + 1)])"
    and old: "ITEM_DATA st' = newItems @ ITEM_DATA two_row_store"
    by blast
  have cells': "map (\<lambda>n. (item_column n, item_row n)) newItems
              = [(-3, 0), (-2, 0), (-1, 0), (-3, 1), (-2, 1)]"
    unfolding cells two_row_miny by (simp add: ITEM_SIZE_def)
  have "\<exists>newItems st'.
         addMoreItems 125000 5 DirLeft no_videos two_row_store = Inr (newItems, st')
         \<and> map (\<lambda>n. (item_column n, item_row n)) newItems
              = [(-3, 0), (-2, 0), (-1, 0), (-3, 1), (-2, 1)]
         \<and> ITEM_DATA st' = newItems @ ITEM_DATA two_row_store"
    using step cells' old by (intro exI conjI)
  with u r two_row_mincol e show ?thesis by (intro conjI)
qed

section \<open>Eviction by distance\<close>

lemma in_set_map_filter:
  "y \<in> set (List.map_filter f xs) \<longleftrightarrow> (\<exists>x \<in> set xs. f x = Some y)"
  by (induction xs) (auto split: option.splits)

lemma itemDistances_mem:
  assumes "(k, d) \<in> set (itemDistances bnds items vis reg)"
  shows "k \<in> set (map fst reg) \<and> k \<notin> set vis
    \<and> (\<exists>it. find (\<lambda>i. item_id i = k) items = Some it
          \<and> d = itemDistance ((b_left bnds + b_right bnds) / 2) ((b_top bnds + b_bottom bnds) / 2) it)"
proof -
  from assms obtain k' where k': "k' \<in> set (map fst reg)"
    and some: "(case find (\<lambda>i. item_id i = k') items of None \<Rightarrow> None
        | Some it \<Rightarrow> if item_id it \<notin> set vis
            then Some (k', itemDistance ((b_left bnds + b_right bnds) / 2)
                    ((b_top bnds + b_bottom bnds) / 2) it)
            else None) = Some (k, d)"
    unfolding itemDistances_def Let_def in_set_map_filter by blast
  from some obtain it where f: "find (\<lambda>i. item_id i = k') items = Some it"
    and nv: "item_id it \<notin> set vis" and kk: "k' = k"
    and d: "d = itemDistance ((b_left bnds + b_right bnds) / 2)
                    ((b_top bnds + b_bottom bnds) / 2) it"
    by (auto split: option.splits if_splits)
  from f have "item_id it = k'" by (auto simp: find_Some_iff)
  with k' f nv kk d show ?thesis by auto
qed

lemma three_perms:
  assumes "mset ds = {#x, y, z#}"
  shows "ds \<in> {[x, y, z], [x, z, y], [y, x, z], [y, z, x], [z, x, y], [z, y, x]}"
proof -
  have len: "length ds = 3"
    using arg_cong [OF assms, of size] by simp
  then obtain p q r where ds: "ds = [p, q, r]"
    by (auto simp: length_Suc_conv eval_nat_numeral)
  show ?thesis
    using assms unfolding ds
    by (auto simp: add_eq_conv_ex)
qed

lemma sort_three:
  assumes "mset ds = {#(k50, 50::real), (k10, 10), (k30, 30)#}"
  shows "sort_key (\<lambda>p. - snd p) ds = [(k50, 50), (k30, 30), (k10, 10)]"
  using three_perms [OF assms] by auto


lemma evictFurthest_keeps_selected:
  assumes "map_has k reg" "k \<in> set vis"
  shows "map_has k (evictFurthest cam items vis reg)"
proof (cases "length reg > MAX_DOM_NODES")
  case False
  then show ?thesis using assms by (simp add: evictFurthest_def)
next
  case True
  let ?ds = "itemDistances (calculateViewportBounds cam) items vis reg"
  let ?gone = "map fst (take (length reg - MAX_DOM_NODES) (sort_key (\<lambda>p. - snd p) ?ds))"
  have "k \<notin> set ?gone"
  proof
    assume "k \<in> set ?gone"
    then obtain d where "(k, d) \<in> set (take (length reg - MAX_DOM_NODES) (sort_key (\<lambda>p. - snd p) ?ds))"
      by auto
    then have "(k, d) \<in> set (sort_key (\<lambda>p. - snd p) ?ds)"
      by (rule in_set_takeD)
    then have "(k, d) \<in> set ?ds" by simp
    from itemDistances_mem [OF this] assms(2) show False by simp
  qed
  then show ?thesis
    using assms(1) True
    by (auto simp: evictFurthest_def Let_def fold_map_delete map_has_def)
qed


text \<open>
  Claim C2. When the memory-management block of \<open>syncDOM\<close> runs on a registry two entries
  above the cap whose non-selected items are three, at the distances 50, 10 and 30 from
  the centre of the buffered bounds (in any order in the registry), it deletes the entries
  of the items at the distances 50 and 30 and nothing else, so the item at distance 10
  keeps its entry. And on every input, an entry whose key is a selected id is still in
  the registry after the block.
\<close>

theorem eviction_removes_furthest:
  "(length reg = MAX_DOM_NODES + 2
      \<and> mset (itemDistances (calculateViewportBounds cam) items vis reg)
          = {#(k50, 50), (k10, 10), (k30, 30)#}
    \<longrightarrow> evictFurthest cam items vis reg = filter (\<lambda>p. fst p \<noteq> k50 \<and> fst p \<noteq> k30) reg
        \<and> \<not> map_has k50 (evictFurthest cam items vis reg)
        \<and> \<not> map_has k30 (evictFurthest cam items vis reg)
        \<and> map_has k10 (evictFurthest cam items vis reg))
   \<and> (map_has k reg' \<and> k \<in> set vis' \<longrightarrow> map_has k (evictFurthest cam' items' vis' reg'))"
proof (intro conjI impI)
  assume "map_has k reg' \<and> k \<in> set vis'"
  then show "map_has k (evictFurthest cam' items' vis' reg')"
    using evictFurthest_keeps_selected by blast
next
  assume a: "length reg = MAX_DOM_NODES + 2
      \<and> mset (itemDistances (calculateViewportBounds cam) items vis reg)
          = {#(k50, 50), (k10, 10), (k30, 30)#}"
  let ?ds = "itemDistances (calculateViewportBounds cam) items vis reg"
  from a have len: "length reg = MAX_DOM_NODES + 2" and ms: "mset ?ds = {#(k50, 50), (k10, 10), (k30, 30)#}"
    by simp_all
  have srt: "sort_key (\<lambda>p. - snd p) ?ds = [(k50, 50), (k30, 30), (k10, 10)]"
    by (rule sort_three [OF ms])
  have res: "evictFurthest cam items vis reg = filter (\<lambda>p. fst p \<noteq> k50 \<and> fst p \<noteq> k30) reg"
    unfolding evictFurthest_def Let_def srt fold_map_delete using len
    by (auto simp: eval_nat_numeral intro: filter_cong)
  have mem: "(k50, 50) \<in> set ?ds" "(k10, 10) \<in> set ?ds" "(k30, 30) \<in> set ?ds"
    using arg_cong [OF ms, of set_mset] by auto
  from itemDistances_mem [OF mem(1)] itemDistances_mem [OF mem(2)] itemDistances_mem [OF mem(3)]
  have ne: "k10 \<noteq> k50" "k10 \<noteq> k30" and in10: "k10 \<in> set (map fst reg)"
    by auto
  show "evictFurthest cam items vis reg = filter (\<lambda>p. fst p \<noteq> k50 \<and> fst p \<noteq> k30) reg"
    by (rule res)
  show "\<not> map_has k50 (evictFurthest cam items vis reg)"
    unfolding res by (auto simp: map_has_def)
  show "\<not> map_has k30 (evictFurthest cam items vis reg)"
    unfolding res by (auto simp: map_has_def)
  show "map_has k10 (evictFurthest cam items vis reg)"
    unfolding res using ne in10 by (auto simp: map_has_def)
qed


lemma map_filter_append:
  "List.map_filter f (xs @ ys) = List.map_filter f xs @ List.map_filter f ys"
  by (simp add: List.map_filter_def)

lemma map_filter_all_None:
  "(\<And>x. x \<in> set xs \<Longrightarrow> f x = None) \<Longrightarrow> List.map_filter f xs = []"
  by (induction xs) auto

lemma itemDistance_level:
  assumes "real_of_int (item_y it) + real_of_int ITEM_SIZE / 2 = cy"
  shows "itemDistance cx cy it = \<bar>real_of_int (item_x it) + real_of_int ITEM_SIZE / 2 - cx\<bar>"
  using assms by (simp add: itemDistance_def Let_def)

lemma map_fst_entry: "map fst (map entry ks) = ks"
  by (induction ks) (simp_all add: entry_def)

lemma crowded_keys: "map fst crowded_registry = [4..502] @ [1, 2, 3]"
  unfolding crowded_registry_def map_append map_fst_entry by (simp add: entry_def)

lemma crowded_length: "length crowded_registry = 502"
proof -
  have "length crowded_registry = length (map fst crowded_registry)" by simp
  also have "\<dots> = 502" unfolding crowded_keys by (simp del: upto_rec_numeral)
  finally show ?thesis .
qed

lemma crowded_candidates:
  "itemDistances (calculateViewportBounds camera0) near_items [4] crowded_registry
     = [(1, 50), (2, 10), (3, 30)]"
proof -
  let ?f = "\<lambda>k. case find (\<lambda>i. item_id i = k) near_items of
                   None \<Rightarrow> None
                 | Some it \<Rightarrow>
                     if item_id it \<notin> set [4]
                     then Some (k, itemDistance 400 300 it) else None"
  have cx: "(b_left (calculateViewportBounds camera0) + b_right (calculateViewportBounds camera0)) / 2
      = 400"
    and cy: "(b_top (calculateViewportBounds camera0) + b_bottom (calculateViewportBounds camera0)) / 2
      = 300"
    unfolding bounds_camera0 by simp_all
  have rest: "List.map_filter ?f [4..502] = []"
  proof (rule map_filter_all_None)
    fix k :: int assume "k \<in> set [4..502]"
    then have "4 \<le> k" by (simp del: upto_rec_numeral)
    then show "?f k = None"
      by (simp add: near_items_def spot_def)
  qed
  have d1: "itemDistance 400 300 (spot 1 350 200) = 50"
    by (subst itemDistance_level) (simp_all add: spot_def ITEM_SIZE_def)
  have d2: "itemDistance 400 300 (spot 2 310 200) = 10"
    by (subst itemDistance_level) (simp_all add: spot_def ITEM_SIZE_def)
  have d3: "itemDistance 400 300 (spot 3 330 200) = 30"
    by (subst itemDistance_level) (simp_all add: spot_def ITEM_SIZE_def)
  have ids: "item_id (spot 1 350 200) = 1" "item_id (spot 2 310 200) = 2"
    "item_id (spot 3 330 200) = 3"
    by (simp_all add: spot_def)
  have three: "List.map_filter ?f [1, 2, 3] = [(1, 50), (2, 10), (3, 30)]"
    by (simp add: near_items_def ids d1 d2 d3)
  have "itemDistances (calculateViewportBounds camera0) near_items [4] crowded_registry
      = List.map_filter ?f ([4..502] @ [1, 2, 3])"
    unfolding itemDistances_def Let_def crowded_keys cx cy ..
  also have "\<dots> = [(1, 50), (2, 10), (3, 30)]"
    unfolding map_filter_append rest three by (simp del: upto_rec_numeral)
  finally show ?thesis .
qed

theorem eviction_removes_furthest_witness:
  "length crowded_registry = MAX_DOM_NODES + 2
   \<and> mset (itemDistances (calculateViewportBounds camera0) near_items [4] crowded_registry)
        = {#(1, 50), (2, 10), (3, 30)#}
   \<and> map_has 4 crowded_registry \<and> 4 \<in> set [4::int]
   \<and> \<not> map_has 1 (evictFurthest camera0 near_items [4] crowded_registry)
   \<and> \<not> map_has 3 (evictFurthest camera0 near_items [4] crowded_registry)
   \<and> map_has 2 (evictFurthest camera0 near_items [4] crowded_registry)
   \<and> map_has 4 (evictFurthest camera0 near_items [4] crowded_registry)"
proof -
  have len: "length crowded_registry = MAX_DOM_NODES + 2"
    by (simp add: crowded_length MAX_DOM_NODES_def)
  have ms: "mset (itemDistances (calculateViewportBounds camera0) near_items [4] crowded_registry)
        = {#(1, 50), (2, 10), (3, 30)#}"
    unfolding crowded_candidates by simp
  have h4: "map_has 4 crowded_registry"
    unfolding map_has_def crowded_keys by (simp del: upto_rec_numeral)
  have v4: "4 \<in> set [4::int]" by simp
  from eviction_removes_furthest [of crowded_registry camera0 near_items "[4]" 1 2 3 4 crowded_registry "[4]"
      camera0 near_items] len ms h4 v4
  show ?thesis by blast
qed

section \<open>Boundary loading\<close>

lemma render_check:
  "render h s =
     (case checkBoundariesAndLoad h
             (s\<lparr>renderedItems := syncDOM (state s) (ITEM_DATA (data s)) (renderedItems s)\<rparr>) of
        Inl e \<Rightarrow> Inl e
      | Inr s2 \<Rightarrow> Inr (s2\<lparr>renderAnimationFrame := None\<rparr>))"
  by (simp add: render_def Let_def)

lemma boundaryDirection_renderedItems:
  "boundaryDirection (s\<lparr>renderedItems := r\<rparr>) = boundaryDirection s"
  by (simp add: boundaryDirection_def)

text \<open>
  A pass with the append function of data.js on a non-empty store with the guard clear:
  it logs one append call for the direction of the branch taken, or none when no branch
  is taken, whether the append returns or raises.
\<close>

lemma render_outcome:
  assumes "\<not> isLoadingMore s" "ITEM_DATA (data s) \<noteq> []"
  shows "\<exists>s'. (render (Some (window_addMoreItems limit v)) s = Inr s'
              \<or> render (Some (window_addMoreItems limit v)) s = Inl (RangeError, s'))
     \<and> appendCalls s'
         = appendCalls s @ (case boundaryDirection s of None \<Rightarrow> [] | Some d \<Rightarrow> [(2000, d)])
     \<and> (render (Some (window_addMoreItems limit v)) s = Inr s' \<longrightarrow>
          (case boundaryDirection s of
             None \<Rightarrow> data s' = data s
           | Some d \<Rightarrow>
               (\<exists>newItems. addMoreItems limit 2000 d v (data s) = Inr (newItems, data s'))
               \<and> (canvasWidth (state s'), canvasHeight (state s'))
                    = calculateCanvasDimensions (ITEM_DATA (data s'))))
     \<and> (length (ITEM_DATA (data s)) \<le> limit \<longrightarrow>
          render (Some (window_addMoreItems limit v)) s = Inr s')
     \<and> (renderAnimationFrame s \<noteq> None \<longrightarrow> pendingFrames s' = pendingFrames s)"
proof -
  let ?h = "Some (window_addMoreItems limit v)"
  let ?s1 = "s\<lparr>renderedItems := syncDOM (state s) (ITEM_DATA (data s)) (renderedItems s)\<rparr>"
  have ne: "ITEM_DATA (data ?s1) \<noteq> []" using assms by simp
  show ?thesis
  proof (cases "boundaryDirection s")
    case None
    then have "checkBoundariesAndLoad ?h ?s1 = Inr ?s1"
      using assms by (simp add: checkBoundariesAndLoad_branch boundaryDirection_renderedItems)
    then have "render ?h s = Inr (?s1\<lparr>renderAnimationFrame := None\<rparr>)"
      unfolding render_check by simp
    then show ?thesis
      using None by (intro exI [of _ "?s1\<lparr>renderAnimationFrame := None\<rparr>"]) simp
  next
    case (Some d)
    then have chk: "checkBoundariesAndLoad ?h ?s1 = loadMore ?h d ?s1"
      using assms by (simp add: checkBoundariesAndLoad_branch boundaryDirection_renderedItems)
    from loadMore_window [OF ne, of limit v d] show ?thesis
    proof (elim disjE exE conjE)
      fix s' newItems
      assume lm: "loadMore ?h d ?s1 = Inr s'"
        and calls: "appendCalls s' = appendCalls ?s1 @ [(2000, d)]"
        and step: "addMoreItems limit 2000 d v (data ?s1) = Inr (newItems, data s')"
        and dims: "(canvasWidth (state s'), canvasHeight (state s'))
            = calculateCanvasDimensions (ITEM_DATA (data s'))"
        and fr: "renderAnimationFrame ?s1 \<noteq> None \<longrightarrow> pendingFrames s' = pendingFrames ?s1"
      have r: "render ?h s = Inr (s'\<lparr>renderAnimationFrame := None\<rparr>)"
        unfolding render_check chk lm by simp
      have "\<exists>newItems. addMoreItems limit 2000 d v (data s) = Inr (newItems, data s')"
        using step by auto
      then show ?thesis
        using r calls dims fr Some
        by (intro exI [of _ "s'\<lparr>renderAnimationFrame := None\<rparr>"]) simp
    next
      let ?s2 = "?s1\<lparr>isLoadingMore := True, appendCalls := appendCalls ?s1 @ [(2000, d)]\<rparr>"
      assume lm: "loadMore ?h d ?s1 = Inl (RangeError, ?s2)"
        and big: "limit < length (ITEM_DATA (data ?s1))"
      have r: "render ?h s = Inl (RangeError, ?s2)"
        unfolding render_check chk lm by simp
      show ?thesis
        using r big Some by (intro exI [of _ ?s2]) simp
    qed
  qed
qed

text \<open>
  A pass run as an animation-frame callback (\<open>renderAnimationFrame\<close> still holds the
  handle of that frame) requests no further frame, whether or not it appends: the call of
  \<open>scheduleRender\<close> in \<open>checkBoundariesAndLoad\<close> finds the variable non-null, and \<open>render\<close>
  resets it only afterwards.
\<close>

lemma frame_render_requests_no_frame:
  assumes "renderAnimationFrame s = Some ()" "\<not> isLoadingMore s" "ITEM_DATA (data s) \<noteq> []"
  shows "\<exists>s'. (render (Some (window_addMoreItems limit v)) s = Inr s'
              \<or> render (Some (window_addMoreItems limit v)) s = Inl (RangeError, s'))
     \<and> pendingFrames s' = pendingFrames s"
  using render_outcome [OF assms(2,3), of limit v] assms(1) by auto

text \<open>
  On a store of generated data with more than \<open>limit\<close> items, a pass that takes the
  left or the top branch is left by \<open>RangeError\<close>: the store is as it was and
  \<open>isLoadingMore\<close> stays set, since the statements after the append are not reached.
\<close>

lemma oversized_store_append_raises:
  assumes "\<not> isLoadingMore s" "\<not> usingRealData (data s)"
    and "limit < length (ITEM_DATA (data s))"
    and "boundaryDirection s = Some d" "d = DirLeft \<or> d = DirTop"
  shows "\<exists>s'. render (Some (window_addMoreItems limit v)) s = Inl (RangeError, s')
     \<and> isLoadingMore s' \<and> data s' = data s"
proof -
  let ?h = "Some (window_addMoreItems limit v)"
  let ?s1 = "s\<lparr>renderedItems := syncDOM (state s) (ITEM_DATA (data s)) (renderedItems s)\<rparr>"
  let ?s2 = "?s1\<lparr>isLoadingMore := True, appendCalls := appendCalls ?s1 @ [(2000, d)]\<rparr>"
  have ne: "ITEM_DATA (data s) \<noteq> []" using assms(3) by auto
  have chk: "checkBoundariesAndLoad ?h ?s1 = loadMore ?h d ?s1"
    using assms(1,4) ne
    by (simp add: checkBoundariesAndLoad_branch boundaryDirection_renderedItems)
  have "addMoreItems limit 2000 d v (data ?s2) = Inl RangeError"
    by (rule addMoreItems_raises) (use assms in simp_all)
  then have "loadMore ?h d ?s1 = Inl (RangeError, ?s2)"
    by (simp add: loadMore_def Let_def window_addMoreItems_def)
  then have "render ?h s = Inl (RangeError, ?s2)"
    unfolding render_check chk by simp
  then show ?thesis by (intro exI [of _ ?s2]) simp
qed




lemma start_page_canvas: "calculateCanvasDimensions (ITEM_DATA (data start_page)) = (10000, 8000)"
  using start_page_nonempty
  by (simp add: calculateCanvasDimensions_def Let_def start_page_length math_ceil_div_def
      GRID_COLUMNS_def ITEM_SIZE_def)

lemma start_page_direction: "boundaryDirection start_page = Some DirLeft"
  by (simp add: boundaryDirection_def Let_def start_page_canvas start_page_idle bounds_camera0
      LOAD_THRESHOLD_def)




section \<open>The in-flight guard\<close>

lemma loadMore_same_call:
  assumes "f 2000 d (s\<lparr>isLoadingMore := True, appendCalls := appendCalls s @ [(2000, d)]\<rparr>)
         = g 2000 d (s\<lparr>isLoadingMore := True, appendCalls := appendCalls s @ [(2000, d)]\<rparr>)"
  shows "loadMore (Some f) d s = loadMore (Some g) d s"
  using assms by (simp add: loadMore_def Let_def)

lemma window_addMoreItems_guard:
  assumes "window_addMoreItems limit v n d s = Inr s'"
  shows "isLoadingMore s' = isLoadingMore s"
  using assms by (auto simp: window_addMoreItems_def split: sum.splits)

text \<open>
  Claim C6. A boundary check that starts while \<open>isLoadingMore\<close> is set returns the page
  unchanged, whatever the append function is: it performs no append. And when a second
  boundary check fires while the append of a first check is in flight (control is inside
  the append function the first check called, before or after the store has grown; the
  code is synchronous, so this is the only moment at which an append has started and not
  completed), the two checks together invoke the append operation exactly once. The
  first check returns whenever the store has at most \<open>limit\<close> items; when the append
  raises \<open>RangeError\<close> the count is one all the same.
\<close>

theorem guarded_check_is_noop:
  "(isLoadingMore s \<longrightarrow> checkBoundariesAndLoad h s = Inr s)
   \<and> (\<not> isLoadingMore t \<and> ITEM_DATA (data t) \<noteq> [] \<and> boundaryDirection t = Some d \<longrightarrow>
        (\<exists>t'. (checkBoundariesAndLoad
                  (Some (\<lambda>count' direction u.
                     and_then (checkBoundariesAndLoad h2 u)
                       (window_addMoreItems limit v count' direction))) t = Inr t'
               \<or> checkBoundariesAndLoad
                  (Some (\<lambda>count' direction u.
                     and_then (checkBoundariesAndLoad h2 u)
                       (window_addMoreItems limit v count' direction))) t
                   = Inl (RangeError, t'))
            \<and> appendCalls t' = appendCalls t @ [(2000, d)]
            \<and> (length (ITEM_DATA (data t)) \<le> limit \<longrightarrow>
                 checkBoundariesAndLoad
                  (Some (\<lambda>count' direction u.
                     and_then (checkBoundariesAndLoad h2 u)
                       (window_addMoreItems limit v count' direction))) t = Inr t'))
      \<and> (\<exists>t'. (checkBoundariesAndLoad
                  (Some (\<lambda>count' direction u.
                     and_then (window_addMoreItems limit v count' direction u)
                       (checkBoundariesAndLoad h2))) t = Inr t'
               \<or> checkBoundariesAndLoad
                  (Some (\<lambda>count' direction u.
                     and_then (window_addMoreItems limit v count' direction u)
                       (checkBoundariesAndLoad h2))) t
                   = Inl (RangeError, t'))
            \<and> appendCalls t' = appendCalls t @ [(2000, d)]
            \<and> (length (ITEM_DATA (data t)) \<le> limit \<longrightarrow>
                 checkBoundariesAndLoad
                  (Some (\<lambda>count' direction u.
                     and_then (window_addMoreItems limit v count' direction u)
                       (checkBoundariesAndLoad h2))) t = Inr t')))"
proof (intro conjI impI)
  assume "isLoadingMore s"
  then show "checkBoundariesAndLoad h s = Inr s"
    by (rule checkBoundariesAndLoad_guarded)
next
  assume a: "\<not> isLoadingMore t \<and> ITEM_DATA (data t) \<noteq> [] \<and> boundaryDirection t = Some d"
  let ?w = "window_addMoreItems limit v"
  let ?before = "\<lambda>count' direction u. and_then (checkBoundariesAndLoad h2 u) (?w count' direction)"
  let ?after = "\<lambda>count' direction u. and_then (?w count' direction u) (checkBoundariesAndLoad h2)"
  let ?t1 = "t\<lparr>isLoadingMore := True, appendCalls := appendCalls t @ [(2000, d)]\<rparr>"
  have ne: "ITEM_DATA (data t) \<noteq> []" using a by simp
  have outer: "checkBoundariesAndLoad hk t = loadMore hk d t" for hk
    using a by (simp add: checkBoundariesAndLoad_branch)
  have inner: "checkBoundariesAndLoad h2 ?t1 = Inr ?t1"
    by (rule checkBoundariesAndLoad_guarded) simp
  have before: "?before 2000 d ?t1 = ?w 2000 d ?t1"
    by (simp add: and_then_def inner)
  have after: "?after 2000 d ?t1 = ?w 2000 d ?t1"
  proof (cases "?w 2000 d ?t1")
    case (Inl e)
    then show ?thesis by (simp add: and_then_def)
  next
    case (Inr t2)
    from window_addMoreItems_guard [OF Inr] have "isLoadingMore t2" by simp
    then have "checkBoundariesAndLoad h2 t2 = Inr t2"
      by (rule checkBoundariesAndLoad_guarded)
    then show ?thesis using Inr by (simp add: and_then_def)
  qed
  have one: "\<exists>t'. (loadMore (Some ?w) d t = Inr t' \<or> loadMore (Some ?w) d t = Inl (RangeError, t'))
      \<and> appendCalls t' = appendCalls t @ [(2000, d)]
      \<and> (length (ITEM_DATA (data t)) \<le> limit \<longrightarrow> loadMore (Some ?w) d t = Inr t')"
    using loadMore_window [OF ne, of limit v d]
  proof (elim disjE exE conjE)
    fix t' newItems
    assume "loadMore (Some ?w) d t = Inr t'" "appendCalls t' = appendCalls t @ [(2000, d)]"
    then show ?thesis by (intro exI [of _ t']) simp
  next
    assume "loadMore (Some ?w) d t = Inl (RangeError, ?t1)" "limit < length (ITEM_DATA (data t))"
    then show ?thesis by (intro exI [of _ ?t1]) simp
  qed
  have eq1: "checkBoundariesAndLoad (Some ?before) t = loadMore (Some ?w) d t"
    unfolding outer by (rule loadMore_same_call) (rule before)
  have eq2: "checkBoundariesAndLoad (Some ?after) t = loadMore (Some ?w) d t"
    unfolding outer by (rule loadMore_same_call) (rule after)
  show "\<exists>t'. (checkBoundariesAndLoad (Some ?before) t = Inr t'
               \<or> checkBoundariesAndLoad (Some ?before) t = Inl (RangeError, t'))
            \<and> appendCalls t' = appendCalls t @ [(2000, d)]
            \<and> (length (ITEM_DATA (data t)) \<le> limit \<longrightarrow>
                 checkBoundariesAndLoad (Some ?before) t = Inr t')"
    unfolding eq1 by (rule one)
  show "\<exists>t'. (checkBoundariesAndLoad (Some ?after) t = Inr t'
               \<or> checkBoundariesAndLoad (Some ?after) t = Inl (RangeError, t'))
            \<and> appendCalls t' = appendCalls t @ [(2000, d)]
            \<and> (length (ITEM_DATA (data t)) \<le> limit \<longrightarrow>
                 checkBoundariesAndLoad (Some ?after) t = Inr t')"
    unfolding eq2 by (rule one)
qed

theorem guarded_check_is_noop_witness:
  "isLoadingMore (start_page\<lparr>isLoadingMore := True\<rparr>)
   \<and> checkBoundariesAndLoad (Some (window_addMoreItems 125000 no_videos))
        (start_page\<lparr>isLoadingMore := True\<rparr>) = Inr (start_page\<lparr>isLoadingMore := True\<rparr>)
   \<and> \<not> isLoadingMore start_page \<and> ITEM_DATA (data start_page) \<noteq> []
   \<and> boundaryDirection start_page = Some DirLeft
   \<and> length (ITEM_DATA (data start_page)) \<le> 125000
   \<and> (\<exists>t'. checkBoundariesAndLoad
                 (Some (\<lambda>count' direction u.
                    and_then
                      (checkBoundariesAndLoad (Some (window_addMoreItems 125000 no_videos)) u)
                      (window_addMoreItems 125000 no_videos count' direction))) start_page
               = Inr t'
            \<and> appendCalls t' = [(2000, DirLeft)])"
proof -
  let ?s = "start_page\<lparr>isLoadingMore := True\<rparr>"
  let ?h = "Some (window_addMoreItems 125000 no_videos)"
  let ?nested = "Some (\<lambda>count' direction u.
                    and_then (checkBoundariesAndLoad ?h u)
                      (window_addMoreItems 125000 no_videos count' direction))"
  have g: "isLoadingMore ?s" by simp
  have len: "length (ITEM_DATA (data start_page)) \<le> 125000"
    by (simp add: start_page_length)
  note inst = guarded_check_is_noop [of ?s ?h start_page DirLeft ?h 125000 no_videos]
  have 1: "checkBoundariesAndLoad ?h ?s = Inr ?s"
    using inst g by blast
  from inst start_page_idle(1) start_page_nonempty start_page_direction
  obtain t' where
    "checkBoundariesAndLoad ?nested start_page = Inr t'
       \<or> checkBoundariesAndLoad ?nested start_page = Inl (RangeError, t')"
    "appendCalls t' = appendCalls start_page @ [(2000, DirLeft)]"
    "length (ITEM_DATA (data start_page)) \<le> 125000 \<longrightarrow>
       checkBoundariesAndLoad ?nested start_page = Inr t'"
    by blast
  with len have "checkBoundariesAndLoad ?nested start_page = Inr t'
      \<and> appendCalls t' = [(2000, DirLeft)]"
    by (simp add: start_page_idle)
  then have 2: "\<exists>t'. checkBoundariesAndLoad ?nested start_page = Inr t'
      \<and> appendCalls t' = [(2000, DirLeft)]" ..
  show ?thesis
    using g 1 2 len start_page_idle(1) start_page_nonempty start_page_direction
    by (intro conjI)
qed

lemma render_guarded:
  assumes "isLoadingMore s"
  shows "\<exists>s'. render h s = Inr s' \<and> isLoadingMore s' \<and> appendCalls s' = appendCalls s"
proof -
  let ?s1 = "s\<lparr>renderedItems := syncDOM (state s) (ITEM_DATA (data s)) (renderedItems s)\<rparr>"
  have "checkBoundariesAndLoad h ?s1 = Inr ?s1"
    by (rule checkBoundariesAndLoad_guarded) (simp add: assms)
  then show ?thesis unfolding render_check using assms by simp
qed

lemma handle_guarded:
  assumes "isLoadingMore s"
  shows "\<exists>s'. handle h e s = Inr s' \<and> isLoadingMore s' \<and> appendCalls s' = appendCalls s"
proof (cases e)
  case (MouseDown button clientX clientY)
  then show ?thesis using assms by (simp add: handle_def handleMouseDown_def)
next
  case (MouseMove clientX clientY)
  show ?thesis
  proof (cases "isDragging (state s)")
    case False
    then show ?thesis using assms MouseMove by (simp add: handle_def handleMouseMove_def)
  next
    case True
    let ?s1 = "s\<lparr>state := (state s)\<lparr>
        panX := dragStartPanX (state s) + (clientX - dragStartX (state s)),
        panY := dragStartPanY (state s) + (clientY - dragStartY (state s))\<rparr>\<rparr>"
    have "checkBoundariesAndLoad h (scheduleRender ?s1) = Inr (scheduleRender ?s1)"
      by (rule checkBoundariesAndLoad_guarded) (simp add: scheduleRender_fields assms)
    then show ?thesis
      using assms MouseMove True
      by (simp add: handle_def handleMouseMove_def Let_def scheduleRender_fields)
  qed
next
  case MouseUp
  then show ?thesis using assms by (simp add: handle_def handleMouseUp_def scheduleRender_fields)
next
  case (Wheel deltaY clientX clientY rectLeft rectTop)
  define s2 where "s2 = s\<lparr>state := (state s)\<lparr>
      zoom := max 0.1 (min 5.0 (zoom (state s) + (- deltaY * 0.1 / 1000))),
      panX := clientX - rectLeft - (clientX - rectLeft - panX (state s)) / zoom (state s)
                * max 0.1 (min 5.0 (zoom (state s) + (- deltaY * 0.1 / 1000))),
      panY := clientY - rectTop - (clientY - rectTop - panY (state s)) / zoom (state s)
                * max 0.1 (min 5.0 (zoom (state s) + (- deltaY * 0.1 / 1000)))\<rparr>\<rparr>"
  have hw: "handleWheel h deltaY clientX clientY rectLeft rectTop s
      = checkBoundariesAndLoad h (scheduleRender s2)"
    by (simp add: handleWheel_def Let_def s2_def)
  have fl: "isLoadingMore (scheduleRender s2)" "appendCalls (scheduleRender s2) = appendCalls s"
    by (simp_all add: scheduleRender_fields s2_def assms)
  have "checkBoundariesAndLoad h (scheduleRender s2) = Inr (scheduleRender s2)"
    using fl(1) by (rule checkBoundariesAndLoad_guarded)
  then show ?thesis using Wheel hw fl by (simp add: handle_def)
next
  case (Resize clientWidth clientHeight)
  then show ?thesis using assms by (simp add: handle_def handleResize_def scheduleRender_fields)
next
  case AnimationFrame
  show ?thesis
  proof (cases "pendingFrames s = 0")
    case True
    then show ?thesis using assms AnimationFrame by (simp add: handle_def)
  next
    case False
    have "isLoadingMore (s\<lparr>pendingFrames := pendingFrames s - 1\<rparr>)" using assms by simp
    from render_guarded [OF this, of h] show ?thesis
      using AnimationFrame False by (simp add: handle_def)
  qed
next
  case (Initialize clientWidth clientHeight)
  let ?s0 = "initializeCanvas clientWidth clientHeight s"
  let ?s1 = "?s0\<lparr>state := (state ?s0)\<lparr>
      panX := viewportWidth (state ?s0) / 2
              - real_of_int (canvasWidth (state ?s0)) / 2 * zoom (state ?s0),
      panY := viewportHeight (state ?s0) / 2
              - real_of_int (canvasHeight (state ?s0)) / 2 * zoom (state ?s0)\<rparr>\<rparr>"
  have fl: "isLoadingMore ?s1" "appendCalls ?s1 = appendCalls s"
    using assms by (simp_all add: initializeCanvas_def Let_def)
  have lc: "loadFromCenter h ?s0 = render h ?s1"
    by (simp add: loadFromCenter_def Let_def)
  from render_guarded [OF fl(1), of h] show ?thesis
    using Initialize lc fl(2) by (simp add: handle_def)
qed

lemma run_guarded:
  assumes "isLoadingMore s"
  shows "\<exists>s'. run es s = Some s' \<and> isLoadingMore s' \<and> appendCalls s' = appendCalls s"
  using assms
proof (induction es arbitrary: s)
  case Nil
  then show ?case by simp
next
  case (Cons he es)
  obtain h e where he: "he = (h, e)" by (cases he)
  from handle_guarded [OF Cons.prems, of h e] obtain s1 where
    s1: "handle h e s = Inr s1" "isLoadingMore s1" "appendCalls s1 = appendCalls s"
    by auto
  from Cons.IH [OF s1(2)] show ?case
    using s1 he by simp
qed

text \<open>
  Claim C10. When a boundary check finds a threshold crossed (guard clear, store
  non-empty) while \<open>window.addMoreItemsToMEGHTOSH\<close> is not a function, it returns with
  \<open>isLoadingMore\<close> set and without an append. From then on every boundary check, whatever
  the append function has become, returns the page unchanged, and through every sequence
  of later events the guard stays set and no append is ever invoked.
\<close>

theorem missing_append_function_blocks_loading:
  assumes "\<not> isLoadingMore s" "ITEM_DATA (data s) \<noteq> []" "boundaryDirection s = Some d"
  shows "\<exists>s1. checkBoundariesAndLoad None s = Inr s1
     \<and> isLoadingMore s1 \<and> appendCalls s1 = appendCalls s
     \<and> (\<forall>h. checkBoundariesAndLoad h s1 = Inr s1)
     \<and> (\<forall>es. \<exists>s2. run es s1 = Some s2 \<and> isLoadingMore s2 \<and> appendCalls s2 = appendCalls s)"
proof -
  let ?s1 = "s\<lparr>isLoadingMore := True\<rparr>"
  have chk: "checkBoundariesAndLoad None s = Inr ?s1"
    using assms by (simp add: checkBoundariesAndLoad_branch loadMore_def Let_def)
  have fl: "isLoadingMore ?s1" by simp
  have "\<forall>h. checkBoundariesAndLoad h ?s1 = Inr ?s1"
    using fl by (simp add: checkBoundariesAndLoad_guarded)
  moreover have "\<forall>es. \<exists>s2. run es ?s1 = Some s2 \<and> isLoadingMore s2
      \<and> appendCalls s2 = appendCalls s"
    using run_guarded [OF fl] by simp
  ultimately show ?thesis using chk by simp
qed

theorem missing_append_function_blocks_loading_witness:
  "\<not> isLoadingMore start_page \<and> ITEM_DATA (data start_page) \<noteq> []
   \<and> boundaryDirection start_page = Some DirLeft
   \<and> (\<exists>s1. checkBoundariesAndLoad None start_page = Inr s1
          \<and> isLoadingMore s1 \<and> appendCalls s1 = []
          \<and> checkBoundariesAndLoad (Some (window_addMoreItems 125000 no_videos)) s1 = Inr s1
          \<and> (\<exists>s2. run [(Some (window_addMoreItems 125000 no_videos), MouseDown 0 10 10),
                        (Some (window_addMoreItems 125000 no_videos), MouseMove 900 700),
                        (Some (window_addMoreItems 125000 no_videos), AnimationFrame)] s1
                    = Some s2
                 \<and> isLoadingMore s2 \<and> appendCalls s2 = []))"
proof -
  from missing_append_function_blocks_loading
    [OF start_page_idle(1) start_page_nonempty start_page_direction]
  obtain s1 where chk: "checkBoundariesAndLoad None start_page = Inr s1"
    and fl: "isLoadingMore s1" and calls: "appendCalls s1 = appendCalls start_page"
    and again: "\<forall>h. checkBoundariesAndLoad h s1 = Inr s1"
    and later: "\<forall>es. \<exists>s2. run es s1 = Some s2 \<and> isLoadingMore s2
        \<and> appendCalls s2 = appendCalls start_page"
    by blast
  let ?es = "[(Some (window_addMoreItems 125000 no_videos), MouseDown 0 10 10),
              (Some (window_addMoreItems 125000 no_videos), MouseMove 900 700),
              (Some (window_addMoreItems 125000 no_videos), AnimationFrame)]"
  from later obtain s2 where "run ?es s1 = Some s2" "isLoadingMore s2"
    "appendCalls s2 = appendCalls start_page"
    by blast
  then have run: "\<exists>s2. run ?es s1 = Some s2 \<and> isLoadingMore s2 \<and> appendCalls s2 = []"
    by (simp add: start_page_idle)
  have "checkBoundariesAndLoad None start_page = Inr s1
          \<and> isLoadingMore s1 \<and> appendCalls s1 = []
          \<and> checkBoundariesAndLoad (Some (window_addMoreItems 125000 no_videos)) s1 = Inr s1
          \<and> (\<exists>s2. run ?es s1 = Some s2 \<and> isLoadingMore s2 \<and> appendCalls s2 = [])"
    using chk fl calls again run by (simp add: start_page_idle)
  then have "\<exists>s1. checkBoundariesAndLoad None start_page = Inr s1
          \<and> isLoadingMore s1 \<and> appendCalls s1 = []
          \<and> checkBoundariesAndLoad (Some (window_addMoreItems 125000 no_videos)) s1 = Inr s1
          \<and> (\<exists>s2. run ?es s1 = Some s2 \<and> isLoadingMore s2 \<and> appendCalls s2 = [])" ..
  then show ?thesis
    using start_page_idle(1) start_page_nonempty start_page_direction by (intro conjI)
qed

end
